theory Spec2Isabelle
  imports Main "HOL-Library.Word"
begin

unbundle bit_operations_syntax

section \<open>Bytes, buffers and results\<close>

text \<open>
  A packet buffer (\<^verbatim>\<open>unsigned char *\<close>) is a list of bytes; a pointer into a buffer is
  an offset into that list, and a function that writes through a pointer returns the new
  buffer. A C function can also leave the defined behaviour of the language (a read or
  write outside an object, a null pointer dereference) or never return; both are values of
  the result type.
\<close>

type_synonym u8 = "8 word"
type_synonym u32 = "32 word"

datatype 'a outcome = Ret 'a | Fault | Hang

section \<open>The digests of the crypto library\<close>

text \<open>
  \<^verbatim>\<open>EVP_md5\<close> and \<^verbatim>\<open>HMAC\<close> belong to OpenSSL, not to the repository. They are the
  functions of RFC 1321 and RFC 2104, written out here so that the code that calls them
  can be evaluated on concrete packets.
\<close>

definition md5_K :: "u32 list" where
  "md5_K = [0xd76aa478, 0xe8c7b756, 0x242070db, 0xc1bdceee, 0xf57c0faf, 0x4787c62a,
            0xa8304613, 0xfd469501, 0x698098d8, 0x8b44f7af, 0xffff5bb1, 0x895cd7be,
            0x6b901122, 0xfd987193, 0xa679438e, 0x49b40821, 0xf61e2562, 0xc040b340,
            0x265e5a51, 0xe9b6c7aa, 0xd62f105d, 0x02441453, 0xd8a1e681, 0xe7d3fbc8,
            0x21e1cde6, 0xc33707d6, 0xf4d50d87, 0x455a14ed, 0xa9e3e905, 0xfcefa3f8,
            0x676f02d9, 0x8d2a4c8a, 0xfffa3942, 0x8771f681, 0x6d9d6122, 0xfde5380c,
            0xa4beea44, 0x4bdecfa9, 0xf6bb4b60, 0xbebfbc70, 0x289b7ec6, 0xeaa127fa,
            0xd4ef3085, 0x04881d05, 0xd9d4d039, 0xe6db99e5, 0x1fa27cf8, 0xc4ac5665,
            0xf4292244, 0x432aff97, 0xab9423a7, 0xfc93a039, 0x655b59c3, 0x8f0ccc92,
            0xffeff47d, 0x85845dd1, 0x6fa87e4f, 0xfe2ce6e0, 0xa3014314, 0x4e0811a1,
            0xf7537e82, 0xbd3af235, 0x2ad7d2bb, 0xeb86d391]"

definition md5_S :: "nat list" where
  "md5_S = [7, 12, 17, 22, 7, 12, 17, 22, 7, 12, 17, 22, 7, 12, 17, 22,
            5, 9, 14, 20, 5, 9, 14, 20, 5, 9, 14, 20, 5, 9, 14, 20,
            4, 11, 16, 23, 4, 11, 16, 23, 4, 11, 16, 23, 4, 11, 16, 23,
            6, 10, 15, 21, 6, 10, 15, 21, 6, 10, 15, 21, 6, 10, 15, 21]"

definition rotl32 :: "nat \<Rightarrow> u32 \<Rightarrow> u32" where
  "rotl32 n w = push_bit n w OR drop_bit (32 - n) w"

definition le32 :: "u8 list \<Rightarrow> u32" where
  "le32 bs = ucast (bs ! 0) OR push_bit 8 (ucast (bs ! 1)) OR
             push_bit 16 (ucast (bs ! 2)) OR push_bit 24 (ucast (bs ! 3))"

definition bytes32 :: "u32 \<Rightarrow> u8 list" where
  "bytes32 w = [ucast w, ucast (drop_bit 8 w), ucast (drop_bit 16 w), ucast (drop_bit 24 w)]"

fun md5_words :: "nat \<Rightarrow> u8 list \<Rightarrow> u32 list" where
  "md5_words 0 bs = []"
| "md5_words (Suc n) bs = le32 (take 4 bs) # md5_words n (drop 4 bs)"

definition md5_round ::
  "u32 list \<Rightarrow> u32 \<times> u32 \<times> u32 \<times> u32 \<Rightarrow> nat \<Rightarrow> u32 \<times> u32 \<times> u32 \<times> u32" where
  "md5_round m st i = (case st of (a, b, c, d) \<Rightarrow>
     let f = (if i < 16 then (b AND c) OR (NOT b AND d)
              else if i < 32 then (d AND b) OR (NOT d AND c)
              else if i < 48 then b XOR c XOR d
              else c XOR (b OR NOT d));
         g = (if i < 16 then i
              else if i < 32 then (5 * i + 1) mod 16
              else if i < 48 then (3 * i + 5) mod 16
              else (7 * i) mod 16);
         f' = f + a + md5_K ! i + m ! g
     in (d, b + rotl32 (md5_S ! i) f', b, c))"

definition md5_block :: "u32 \<times> u32 \<times> u32 \<times> u32 \<Rightarrow> u8 list \<Rightarrow> u32 \<times> u32 \<times> u32 \<times> u32" where
  "md5_block st blk = (case st of (a0, b0, c0, d0) \<Rightarrow>
     case foldl (md5_round (md5_words 16 blk)) st [0..<64] of (a, b, c, d) \<Rightarrow>
       (a0 + a, b0 + b, c0 + c, d0 + d))"

fun md5_blocks :: "nat \<Rightarrow> u32 \<times> u32 \<times> u32 \<times> u32 \<Rightarrow> u8 list \<Rightarrow> u32 \<times> u32 \<times> u32 \<times> u32" where
  "md5_blocks 0 st bs = st"
| "md5_blocks (Suc n) st bs = md5_blocks n (md5_block st (take 64 bs)) (drop 64 bs)"

definition md5_pad :: "u8 list \<Rightarrow> u8 list" where
  "md5_pad msg = (let n = length msg; bits = (word_of_nat (8 * n) :: 64 word)
     in msg @ [0x80] @ replicate ((119 - n mod 64) mod 64) 0 @
        map (\<lambda>k. ucast (drop_bit (8 * k) bits)) [0..<8])"

definition md5 :: "u8 list \<Rightarrow> u8 list" where
  "md5 msg = (let p = md5_pad msg in
     case md5_blocks (length p div 64) (0x67452301, 0xefcdab89, 0x98badcfe, 0x10325476) p of
       (a, b, c, d) \<Rightarrow> bytes32 a @ bytes32 b @ bytes32 c @ bytes32 d)"

definition hmac_md5 :: "u8 list \<Rightarrow> u8 list \<Rightarrow> u8 list" where
  "hmac_md5 key msg = (let k = (if 64 < length key then md5 key else key);
                           k' = k @ replicate (64 - length k) 0
     in md5 (map (\<lambda>b. b XOR 0x5c) k' @ md5 (map (\<lambda>b. b XOR 0x36) k' @ msg)))"

section \<open>User-Password encryption\<close>

text \<open>
  \<^verbatim>\<open>pwdencrypt(in, len, shared, sharedlen, auth)\<close>. The loop keeps \<^verbatim>\<open>offset\<close> and the
  pointer \<^verbatim>\<open>input\<close> to the 16 bytes that are hashed with the secret. \<open>out\<close> is the part of
  \<^verbatim>\<open>out[128]\<close> written so far (\<open>offset\<close> bytes). After a block the code sets
  \<^verbatim>\<open>input = out + offset - 16\<close> and only then adds 16 to \<^verbatim>\<open>offset\<close>: after the first block
  the pointer is 16 bytes below \<^verbatim>\<open>out\<close>, outside the array, and \<open>below\<close> stands for the
  16 bytes the stack frame holds there; after block \<open>k\<close> it points to block \<open>k - 1\<close>.
  Writing past \<^verbatim>\<open>out[127]\<close> and reading past the \<open>len\<close> bytes of \<^verbatim>\<open>in\<close> is \<open>Fault\<close>; a digest
  that is not 16 bytes long is the return value 0 (\<open>Ret None\<close>).
\<close>

function pwdencrypt_loop ::
  "u8 list \<Rightarrow> nat \<Rightarrow> u8 list \<Rightarrow> u8 list \<Rightarrow> u8 list \<Rightarrow> nat \<Rightarrow> u8 list \<Rightarrow> u8 list option outcome" where
  "pwdencrypt_loop inp len shared below input offset out =
     (let hash = md5 (shared @ input) in
      if length hash \<noteq> 16 then Ret None
      else if 128 < offset + 16 \<or> length inp < offset + 16 then Fault
      else
        let out' = out @ map2 (XOR) hash (take 16 (drop offset inp));
            input' = (if offset < 16 then below else take 16 (drop (offset - 16) out'));
            offset' = offset + 16
        in if offset' = len then Ret (Some (take len out' @ drop len inp))
           else pwdencrypt_loop inp len shared below input' offset' out')"
  by pat_completeness auto
termination
  by (relation "measure (\<lambda>(inp, len, shared, below, input, offset, out). 129 - offset)") auto

declare pwdencrypt_loop.simps [simp del]

definition pwdencrypt :: "u8 list \<Rightarrow> nat \<Rightarrow> u8 list \<Rightarrow> u8 list \<Rightarrow> u8 list \<Rightarrow> u8 list option outcome" where
  "pwdencrypt inp len shared auth below = pwdencrypt_loop inp len shared below auth 0 []"

text \<open>
  \<^verbatim>\<open>pwddecrypt\<close> is the same loop with \<^verbatim>\<open>input = in + offset\<close>: the ciphertext block that
  was just decrypted.
\<close>

function pwddecrypt_loop ::
  "u8 list \<Rightarrow> nat \<Rightarrow> u8 list \<Rightarrow> u8 list \<Rightarrow> nat \<Rightarrow> u8 list \<Rightarrow> u8 list option outcome" where
  "pwddecrypt_loop inp len shared input offset out =
     (let hash = md5 (shared @ input) in
      if length hash \<noteq> 16 then Ret None
      else if 128 < offset + 16 \<or> length inp < offset + 16 then Fault
      else
        let out' = out @ map2 (XOR) hash (take 16 (drop offset inp));
            input' = take 16 (drop offset inp);
            offset' = offset + 16
        in if offset' = len then Ret (Some (take len out' @ drop len inp))
           else pwddecrypt_loop inp len shared input' offset' out')"
  by pat_completeness auto
termination
  by (relation "measure (\<lambda>(inp, len, shared, input, offset, out). 129 - offset)") auto

declare pwddecrypt_loop.simps [simp del]

definition pwddecrypt :: "u8 list \<Rightarrow> nat \<Rightarrow> u8 list \<Rightarrow> u8 list \<Rightarrow> u8 list option outcome" where
  "pwddecrypt inp len shared auth = pwddecrypt_loop inp len shared auth 0 []"

text \<open>The round trip of the claim: encrypt, then decrypt what came out.\<close>

definition pwd_roundtrip :: "u8 list \<Rightarrow> u8 list \<Rightarrow> u8 list \<Rightarrow> u8 list \<Rightarrow> u8 list option outcome" where
  "pwd_roundtrip p s a below =
     (case pwdencrypt p (length p) s a below of
        Ret (Some c) \<Rightarrow> pwddecrypt c (length c) s a
      | r \<Rightarrow> r)"

section \<open>Packets and attributes\<close>

text \<open>
  Modelled from the spec: \<^verbatim>\<open>radsecproxy.h\<close>, which defines the packet codes, is not among
  the sources. The spec's data model gives Access-Request = 1, Access-Accept = 2,
  Access-Reject = 3, Access-Challenge = 11 and Status-Server = 12.
\<close>

definition RAD_Access_Request :: u8 where "RAD_Access_Request = 1"
definition RAD_Access_Accept :: u8 where "RAD_Access_Accept = 2"
definition RAD_Access_Reject :: u8 where "RAD_Access_Reject = 3"
definition RAD_Access_Challenge :: u8 where "RAD_Access_Challenge = 11"
definition RAD_Status_Server :: u8 where "RAD_Status_Server = 12"

text \<open>
  Modelled from the spec: the attribute types of the missing \<^verbatim>\<open>radsecproxy.h\<close>. The spec's
  scenario S1 writes User-Name as type \<^verbatim>\<open>01\<close> and Message-Authenticator as type \<^verbatim>\<open>50\<close>;
  the others are the numbers of the wire protocol the spec names (RFC 2865, 2868, 2548):
  User-Password 2, Reply-Message 18, Vendor-Specific 26, Tunnel-Password 69, and the
  Microsoft sub-attributes MS-MPPE-Send-Key 16 and MS-MPPE-Recv-Key 17.
\<close>

definition RAD_Attr_User_Name :: u8 where "RAD_Attr_User_Name = 1"
definition RAD_Attr_User_Password :: u8 where "RAD_Attr_User_Password = 2"
definition RAD_Attr_Reply_Message :: u8 where "RAD_Attr_Reply_Message = 18"
definition RAD_Attr_Vendor_Specific :: u8 where "RAD_Attr_Vendor_Specific = 26"
definition RAD_Attr_Tunnel_Password :: u8 where "RAD_Attr_Tunnel_Password = 69"
definition RAD_Attr_Message_Authenticator :: u8 where "RAD_Attr_Message_Authenticator = 80"
definition RAD_VS_ATTR_MS_MPPE_Send_Key :: u8 where "RAD_VS_ATTR_MS_MPPE_Send_Key = 16"
definition RAD_VS_ATTR_MS_MPPE_Recv_Key :: u8 where "RAD_VS_ATTR_MS_MPPE_Recv_Key = 17"

text \<open>
  Modelled from the spec: the limits of the missing \<^verbatim>\<open>radsecproxy.h\<close>. The request table
  has 256 slots, a request expires after 20 seconds in total, and a UDP request is tried 3
  times.
\<close>

definition MAX_REQUESTS :: nat where "MAX_REQUESTS = 256"
definition REQUEST_EXPIRY :: int where "REQUEST_EXPIRY = 20"
definition REQUEST_RETRIES :: nat where "REQUEST_RETRIES = 3"

text \<open>
  Modelled from the spec: the accessor macros of the missing \<^verbatim>\<open>radsecproxy.h\<close>. The length
  of a packet is the 16-bit big-endian field in bytes 2 and 3 of the header; an attribute
  is (type, length, value) and its length counts the two header bytes. \<open>ATTRVALLEN\<close> is
  computed in \<^verbatim>\<open>int\<close> and can be negative.
\<close>

definition RADLEN :: "u8 list \<Rightarrow> nat" where
  "RADLEN x = 256 * unat (x ! 2) + unat (x ! 3)"

definition ATTRTYPE :: "u8 list \<Rightarrow> nat \<Rightarrow> u8" where
  "ATTRTYPE x a = x ! a"

definition ATTRLEN :: "u8 list \<Rightarrow> nat \<Rightarrow> nat" where
  "ATTRLEN x a = unat (x ! (a + 1))"

definition ATTRVAL :: "nat \<Rightarrow> nat" where
  "ATTRVAL a = a + 2"

definition ATTRVALLEN :: "u8 list \<Rightarrow> nat \<Rightarrow> int" where
  "ATTRVALLEN x a = int (ATTRLEN x a) - 2"

text \<open>\<^verbatim>\<open>memcpy(b + off, bs, n)\<close> inside a buffer, and the \<open>n\<close> bytes at \<open>b + off\<close>.\<close>

definition write_at :: "u8 list \<Rightarrow> nat \<Rightarrow> u8 list \<Rightarrow> u8 list" where
  "write_at b off bs = take off b @ bs @ drop (off + length bs) b"

definition bytes_at :: "u8 list \<Rightarrow> nat \<Rightarrow> nat \<Rightarrow> u8 list" where
  "bytes_at b off n = take n (drop off b)"

text \<open>
  \<^verbatim>\<open>attrget(attrs, length, type)\<close> walks the attributes from the pointer \<open>attrs\<close>, with
  \<open>length\<close> bytes left, and returns the first attribute of the type or \<^verbatim>\<open>NULL\<close>. An
  attribute of another type whose length byte is 0 leaves the pointer and the length as they
  are: the loop never ends. A read behind the end of the buffer is \<open>Fault\<close>.
\<close>

function attrget :: "u8 list \<Rightarrow> nat \<Rightarrow> int \<Rightarrow> u8 \<Rightarrow> nat option outcome" where
  "attrget b attrs len ty =
     (if 1 < len then
        (if length b \<le> attrs then Fault
         else if ATTRTYPE b attrs = ty then Ret (Some attrs)
         else if length b \<le> attrs + 1 then Fault
         else if ATTRLEN b attrs = 0 then Hang
         else attrget b (attrs + ATTRLEN b attrs) (len - int (ATTRLEN b attrs)) ty)
      else Ret None)"
  by pat_completeness auto
termination
  by (relation "measure (\<lambda>(b, attrs, len, ty). nat len)") auto

declare attrget.simps [simp del]

text \<open>
  \<^verbatim>\<open>attrvalidate(attrs, length)\<close>: every attribute is at least 2 bytes long and ends inside
  the \<open>length\<close> bytes; one byte left over at the end is only logged.
\<close>

function attrvalidate :: "u8 list \<Rightarrow> nat \<Rightarrow> int \<Rightarrow> bool outcome" where
  "attrvalidate b attrs len =
     (if 1 < len then
        (if length b \<le> attrs + 1 then Fault
         else if ATTRLEN b attrs < 2 then Ret False
         else if len - int (ATTRLEN b attrs) < 0 then Ret False
         else attrvalidate b (attrs + ATTRLEN b attrs) (len - int (ATTRLEN b attrs)))
      else Ret True)"
  by pat_completeness auto
termination
  by (relation "measure (\<lambda>(b, attrs, len). nat len)") auto

declare attrvalidate.simps [simp del]

section \<open>Authenticators\<close>

text \<open>
  \<^verbatim>\<open>radsign(rad, sec)\<close> writes MD5(packet, secret) into bytes 4..20 and returns whether
  the digest calls succeeded. The secrets are C strings: the bytes before the terminating
  zero.
\<close>

definition radsign :: "u8 list \<Rightarrow> u8 list \<Rightarrow> (bool \<times> u8 list) outcome" where
  "radsign rad sec =
     (if length rad < 20 \<or> length rad < RADLEN rad then Fault
      else let hash = md5 (take (RADLEN rad) rad @ sec)
           in Ret (length hash = 16, write_at rad 4 hash))"

text \<open>
  \<^verbatim>\<open>validauth(rad, reqauth, sec)\<close>: the Response Authenticator of a reply is
  MD5(code, id, length, request authenticator, attributes, secret).
\<close>

definition validauth :: "u8 list \<Rightarrow> u8 list \<Rightarrow> u8 list \<Rightarrow> bool outcome" where
  "validauth rad reqauth sec =
     (if length rad < 20 \<or> length rad < RADLEN rad \<or> length reqauth < 16 then Fault
      else let len = RADLEN rad;
               hash = md5 (take 4 rad @ take 16 reqauth @
                           (if len \<le> 20 then [] else bytes_at rad 20 (len - 20)) @ sec)
           in Ret (length hash = 16 \<and> hash = bytes_at rad 4 16))"

text \<open>
  \<^verbatim>\<open>checkmessageauth(rad, authattr, secret)\<close>: \<open>authattr\<close> points to the 16 bytes of the
  Message-Authenticator value. They are saved and zeroed, the HMAC-MD5 of the packet is
  computed, the saved bytes are put back, and the result says whether they equal the
  HMAC. The second component is the buffer as the function leaves it.
\<close>

definition checkmessageauth :: "u8 list \<Rightarrow> nat \<Rightarrow> u8 list \<Rightarrow> (bool \<times> u8 list) outcome" where
  "checkmessageauth rad authattr secret =
     (if length rad < authattr + 16 then Fault
      else
        let auth = bytes_at rad authattr 16;
            rad0 = write_at rad authattr (replicate 16 0)
        in if length rad0 < 4 \<or> length rad0 < RADLEN rad0 then Fault
           else
             let hash = hmac_md5 secret (take (RADLEN rad0) rad0);
                 rad1 = write_at rad0 authattr auth
             in if length hash \<noteq> 16 then Ret (False, rad1)
                else if auth \<noteq> take 16 hash then Ret (False, rad1)
                else Ret (True, rad1))"

text \<open>
  \<^verbatim>\<open>createmessageauth(rad, authattrval, secret)\<close>: nothing to do for a null pointer;
  otherwise the 16 bytes are zeroed and \<^verbatim>\<open>HMAC_Final\<close> writes the HMAC-MD5 of the packet
  over them.
\<close>

definition createmessageauth :: "u8 list \<Rightarrow> nat option \<Rightarrow> u8 list \<Rightarrow> (bool \<times> u8 list) outcome" where
  "createmessageauth rad authattrval secret =
     (case authattrval of
        None \<Rightarrow> Ret (True, rad)
      | Some a \<Rightarrow>
          if length rad < a + 16 then Fault
          else
            let rad0 = write_at rad a (replicate 16 0)
            in if length rad0 < 4 \<or> length rad0 < RADLEN rad0 then Fault
               else
                 let hash = hmac_md5 secret (take (RADLEN rad0) rad0)
                 in Ret (length hash = 16, write_at rad0 a hash))"

section \<open>Re-encryption of passwords and keys\<close>

text \<open>
  \<^verbatim>\<open>pwdrecrypt(pwd, len, oldsecret, newsecret, oldauth, newauth)\<close> works in place on the
  \<open>len\<close> value bytes at \<open>pwd\<close>. \<open>Ret None\<close> is the return value 0 (the caller frees the
  packet), \<open>Ret (Some b)\<close> the return value 1 with the buffer as it is then. The length of
  a secret is passed on as \<^verbatim>\<open>strlen(secret)\<close> in a \<^verbatim>\<open>uint8_t sharedlen\<close>: of a secret
  of 256 bytes or more, the first \<open>length mod 256\<close> bytes are hashed.
\<close>

definition pwdrecrypt ::
  "u8 list \<Rightarrow> nat \<Rightarrow> nat \<Rightarrow> u8 list \<Rightarrow> u8 list \<Rightarrow> u8 list \<Rightarrow> u8 list \<Rightarrow> u8 list \<Rightarrow> u8 list option outcome" where
  "pwdrecrypt b pwd len oldsecret newsecret oldauth newauth below =
     (if len < 16 \<or> 128 < len \<or> len mod 16 \<noteq> 0 then Ret None
      else
        case pwddecrypt (bytes_at b pwd len) len
               (take (length oldsecret mod 256) oldsecret) oldauth of
          Ret (Some plain) \<Rightarrow>
            (case pwdencrypt plain len (take (length newsecret mod 256) newsecret)
                    newauth below of
               Ret (Some c) \<Rightarrow> Ret (Some (write_at b pwd c))
             | Ret None \<Rightarrow> Ret None
             | Fault \<Rightarrow> Fault
             | Hang \<Rightarrow> Hang)
        | Ret None \<Rightarrow> Ret None
        | Fault \<Rightarrow> Fault
        | Hang \<Rightarrow> Hang)"

text \<open>
  \<^verbatim>\<open>msmppdecrypt(text, len, shared, sharedlen, auth, salt)\<close>: the first block is keyed by
  MD5(secret, authenticator, salt), each later block by MD5(secret, previous ciphertext
  block). The plaintext is collected in \<^verbatim>\<open>plain[255]\<close> and copied back at the end. The loop
  counter is a \<^verbatim>\<open>uint8_t\<close> that advances by 16 while it is below \<open>len\<close>; every block is
  read and written in full, also when fewer than 16 bytes of the key remain. At offset 240
  the write reaches \<^verbatim>\<open>plain[255]\<close>, one byte beyond the array.
\<close>

function msmppdecrypt_loop ::
  "u8 list \<Rightarrow> nat \<Rightarrow> nat \<Rightarrow> u8 list \<Rightarrow> nat \<Rightarrow> u8 list \<Rightarrow> u8 list option outcome" where
  "msmppdecrypt_loop b text len shared offset plain =
     (if offset < len then
        let hash = md5 (shared @ bytes_at b (text + offset - 16) 16) in
        if length hash \<noteq> 16 then Ret None
        else if length b < text + offset + 16 \<or> 255 < offset + 16 then Fault
        else msmppdecrypt_loop b text len shared (offset + 16)
               (plain @ map2 (XOR) (bytes_at b (text + offset) 16) hash)
      else if length b < text + len then Fault
      else Ret (Some (write_at b text (take len plain))))"
  by pat_completeness auto
termination
  by (relation "measure (\<lambda>(b, text, len, shared, offset, plain). 256 - offset)") auto

declare msmppdecrypt_loop.simps [simp del]

definition msmppdecrypt ::
  "u8 list \<Rightarrow> nat \<Rightarrow> nat \<Rightarrow> u8 list \<Rightarrow> u8 list \<Rightarrow> u8 list \<Rightarrow> u8 list option outcome" where
  "msmppdecrypt b text len shared auth salt =
     (let hash = md5 (shared @ auth @ salt) in
      if length b < text + 16 then Fault
      else msmppdecrypt_loop b text len shared 16 (map2 (XOR) (bytes_at b text 16) hash))"

text \<open>
  \<^verbatim>\<open>msmppencrypt\<close> is the same chain in place: \<^verbatim>\<open>text[offset + i] ^= hash[i]\<close> for a whole
  block, so a key whose length is not a multiple of 16 has the bytes behind it changed as
  well. When the counter is 240 and still below \<open>len\<close>, adding 16 wraps it to 0, which is
  below \<open>len\<close> again: the loop goes round for ever over the same bytes of the buffer.
\<close>

function msmppencrypt_loop ::
  "u8 list \<Rightarrow> nat \<Rightarrow> nat \<Rightarrow> u8 list \<Rightarrow> nat \<Rightarrow> u8 list option outcome" where
  "msmppencrypt_loop b text len shared offset =
     (if offset < len then
        let hash = md5 (shared @ bytes_at b (text + offset - 16) 16) in
        if length hash \<noteq> 16 then Ret None
        else if length b < text + offset + 16 then Fault
        else if 256 \<le> offset + 16 then Hang
        else msmppencrypt_loop
               (write_at b (text + offset) (map2 (XOR) (bytes_at b (text + offset) 16) hash))
               text len shared (offset + 16)
      else Ret (Some b))"
  by pat_completeness auto
termination
  by (relation "measure (\<lambda>(b, text, len, shared, offset). 256 - offset)") auto

declare msmppencrypt_loop.simps [simp del]

definition msmppencrypt ::
  "u8 list \<Rightarrow> nat \<Rightarrow> nat \<Rightarrow> u8 list \<Rightarrow> u8 list \<Rightarrow> u8 list \<Rightarrow> u8 list option outcome" where
  "msmppencrypt b text len shared auth salt =
     (let hash = md5 (shared @ auth @ salt) in
      if length b < text + 16 then Fault
      else msmppencrypt_loop (write_at b text (map2 (XOR) (bytes_at b text 16) hash))
             text len shared 16)"

text \<open>
  \<^verbatim>\<open>msmpprecrypt(msmpp, len, ...)\<close>: the value of an MS-MPPE key attribute is a 2-byte salt
  followed by the encrypted key. \<open>len\<close> is a \<^verbatim>\<open>uint8_t\<close> parameter, and so is the
  \<^verbatim>\<open>sharedlen\<close> that takes \<^verbatim>\<open>strlen(secret)\<close>.
\<close>

definition msmpprecrypt ::
  "u8 list \<Rightarrow> nat \<Rightarrow> nat \<Rightarrow> u8 list \<Rightarrow> u8 list \<Rightarrow> u8 list \<Rightarrow> u8 list \<Rightarrow> u8 list option outcome" where
  "msmpprecrypt b msmpp len oldsecret newsecret oldauth newauth =
     (if len < 18 then Ret None
      else if length b < msmpp + 2 then Fault
      else
        case msmppdecrypt b (msmpp + 2) (len - 2)
               (take (length oldsecret mod 256) oldsecret) oldauth (bytes_at b msmpp 2) of
          Ret (Some b') \<Rightarrow>
            msmppencrypt b' (msmpp + 2) (len - 2)
              (take (length newsecret mod 256) newsecret) newauth (bytes_at b' msmpp 2)
        | r \<Rightarrow> r)"

text \<open>
  \<^verbatim>\<open>msmppe(attrs, length, type, attrtxt, rq, oldsecret, newsecret)\<close> re-encrypts every
  sub-attribute of the type. The loop variable \<open>attr\<close> starts at \<open>attrs\<close>; each round looks
  for the next attribute of the type from there and then steps over it by the length byte
  the buffer holds then. (That the loop ends is shown with the properties below: a key
  that was re-encrypted has a length byte of at least 20, which the re-encryption leaves
  as it is.)
\<close>

function msmppe_loop ::
  "u8 list \<Rightarrow> nat \<Rightarrow> int \<Rightarrow> u8 \<Rightarrow> u8 list \<Rightarrow> u8 list \<Rightarrow> u8 list \<Rightarrow> u8 list \<Rightarrow> nat \<Rightarrow> u8 list option outcome" where
  "msmppe_loop b attrs len ty oldsecret newsecret oldauth newauth attr =
     (case attrget b attr (len - (int attr - int attrs)) ty of
        Ret None \<Rightarrow> Ret (Some b)
      | Ret (Some a) \<Rightarrow>
          (case msmpprecrypt b (ATTRVAL a) (nat (ATTRVALLEN b a mod 256))
                  oldsecret newsecret oldauth newauth of
             Ret (Some b') \<Rightarrow>
               msmppe_loop b' attrs len ty oldsecret newsecret oldauth newauth
                 (a + ATTRLEN b' a)
           | r \<Rightarrow> r)
      | Fault \<Rightarrow> Fault
      | Hang \<Rightarrow> Hang)"
  by pat_completeness auto

definition msmppe ::
  "u8 list \<Rightarrow> nat \<Rightarrow> int \<Rightarrow> u8 \<Rightarrow> u8 list \<Rightarrow> u8 list \<Rightarrow> u8 list \<Rightarrow> u8 list \<Rightarrow> u8 list option outcome" where
  "msmppe b attrs len ty oldsecret newsecret oldauth newauth =
     msmppe_loop b attrs len ty oldsecret newsecret oldauth newauth attrs"

section \<open>Peers, requests and queues\<close>

text \<open>
  The structures of the missing \<^verbatim>\<open>radsecproxy.h\<close>, with the fields the code uses. A
  pointer to a \<^verbatim>\<open>struct client\<close>, \<^verbatim>\<open>struct server\<close> or \<^verbatim>\<open>struct replyq\<close> is an index
  into the store of these objects, a null pointer is \<open>None\<close>. The type of a peer is the
  character \<^verbatim>\<open>'U'\<close> or \<^verbatim>\<open>'T'\<close>; the configuration reader admits no other. A peer's
  configuration does not change after startup, so a client and a server hold it by value.
  A compiled regular expression is the predicate \<^verbatim>\<open>regexec\<close> computes on a user name.
\<close>

type_synonym sockaddr = nat

datatype transport = UDP | TLS

record timeval =
  tv_sec :: int
  tv_usec :: int

record clsrvconf =
  ctype :: transport
  host :: string
  secret :: "u8 list"
  statusserver :: bool
  servers :: "nat option"

record request =
  buf :: "u8 list option"
  rqfrom :: "nat option"
  fromsa :: sockaddr
  origid :: u8
  origauth :: "u8 list"
  expiry :: timeval
  tries :: nat
  received :: bool

record reply =
  rbuf :: "u8 list"
  tosa :: "sockaddr option"

record replyq =
  replies :: "reply list"
  qsize :: nat

record client =
  cconf :: clsrvconf
  creplyq :: nat

record server =
  conf :: clsrvconf
  lastconnecttry :: timeval
  connectionok :: bool
  nextid :: nat
  requests :: "request list"
  newrq :: bool

record realm =
  name :: string
  regex :: "u8 list \<Rightarrow> bool"
  message :: "u8 list option"
  srvconf :: "nat option"

record proxy =
  realms :: "realm list"
  srvconfs :: "clsrvconf list"
  client_heap :: "client list"
  server_heap :: "server list"
  replyq_heap :: "replyq list"

section \<open>The request table\<close>

text \<open>
  The two search loops of \<^verbatim>\<open>sendrq\<close>:
  \<^verbatim>\<open>for (i = start; i < n; i++) if (!requests[i].buf) break;\<close> leaves \<open>i\<close> at the first
  free slot, or at \<open>n\<close> (at \<open>start\<close>, if that is greater) when there is none.
\<close>

function first_free :: "request list \<Rightarrow> nat \<Rightarrow> nat \<Rightarrow> nat" where
  "first_free rqs i n =
     (if i < n then (if buf (rqs ! i) = None then i else first_free rqs (Suc i) n) else i)"
  by pat_completeness auto
termination
  by (relation "measure (\<lambda>(rqs, i, n). n - i)") auto

declare first_free.simps [simp del]

datatype sendrq_result = Inserted nat | NoRoom | AuthFailed | SendrqFault | SendrqHang

text \<open>
  \<^verbatim>\<open>sendrq(to, rq)\<close>. The table is searched from \<^verbatim>\<open>nextid\<close> to the end and then from 0
  to \<^verbatim>\<open>nextid\<close>. Without a free slot the request is freed and nothing else happens. With
  one, its index becomes byte 1 of the packet, the Message-Authenticator (if the packet has
  one) is computed with the server's secret, the request is copied into the slot,
  \<^verbatim>\<open>nextid\<close> becomes the index plus 1 and the writer is signalled.
\<close>

definition sendrq :: "server \<Rightarrow> request \<Rightarrow> sendrq_result \<times> server" where
  "sendrq to rq =
     (let i0 = first_free (requests to) (nextid to) MAX_REQUESTS;
          i = (if i0 = MAX_REQUESTS then first_free (requests to) 0 (nextid to) else i0)
      in if i0 = MAX_REQUESTS \<and> i = nextid to then (NoRoom, to)
         else
           case buf rq of
             None \<Rightarrow> (SendrqFault, to)
           | Some b \<Rightarrow>
               if length b < 20 \<or> length (requests to) \<le> i then (SendrqFault, to)
               else
                 let b1 = b[1 := word_of_nat i] in
                 case attrget b1 20 (int (RADLEN b1) - 20) RAD_Attr_Message_Authenticator of
                   Fault \<Rightarrow> (SendrqFault, to)
                 | Hang \<Rightarrow> (SendrqHang, to)
                 | Ret attr \<Rightarrow>
                     (case createmessageauth b1 (map_option ATTRVAL attr) (secret (conf to)) of
                        Fault \<Rightarrow> (SendrqFault, to)
                      | Hang \<Rightarrow> (SendrqHang, to)
                      | Ret (False, b2) \<Rightarrow> (AuthFailed, to)
                      | Ret (True, b2) \<Rightarrow>
                          (Inserted i,
                           to\<lparr>requests := (requests to)[i := rq\<lparr>buf := Some b2\<rparr>],
                              nextid := i + 1,
                              newrq := True\<rparr>)))"

text \<open>
  \<^verbatim>\<open>rqinqueue(to, from, id)\<close>: the loop stops at the first occupied slot that holds a
  request of this client with this identifier.
\<close>

function rqinqueue_loop :: "request list \<Rightarrow> nat option \<Rightarrow> u8 \<Rightarrow> nat \<Rightarrow> nat" where
  "rqinqueue_loop rqs fr ident i =
     (if i < MAX_REQUESTS then
        (if buf (rqs ! i) \<noteq> None \<and> origid (rqs ! i) = ident \<and> rqfrom (rqs ! i) = fr then i
         else rqinqueue_loop rqs fr ident (Suc i))
      else i)"
  by pat_completeness auto
termination
  by (relation "measure (\<lambda>(rqs, fr, ident, i). MAX_REQUESTS - i)") auto

declare rqinqueue_loop.simps [simp del]

definition rqinqueue :: "server \<Rightarrow> nat option \<Rightarrow> u8 \<Rightarrow> bool" where
  "rqinqueue to fr ident = (rqinqueue_loop (requests to) fr ident 0 < MAX_REQUESTS)"

section \<open>Replies to a client\<close>

datatype sendreply_result = Enqueued | SignFailed | QueueFull | ReplyFault

text \<open>
  \<^verbatim>\<open>sendreply(to, buf, tosa)\<close> signs the packet with the client's secret and appends it to
  the client's reply queue; a full queue drops it. \<^verbatim>\<open>newreplyq\<close> allocates
  \<^verbatim>\<open>MAX_REQUESTS\<close> entries whatever the size of the queue is.
\<close>

definition sendreply :: "proxy \<Rightarrow> nat option \<Rightarrow> u8 list \<Rightarrow> sockaddr option \<Rightarrow> sendreply_result \<times> proxy" where
  "sendreply P to b sa =
     (case to of
        None \<Rightarrow> (ReplyFault, P)
      | Some c \<Rightarrow>
          if length (client_heap P) \<le> c then (ReplyFault, P)
          else
            let cl = client_heap P ! c; q = creplyq cl in
            if length (replyq_heap P) \<le> q then (ReplyFault, P)
            else
              case radsign b (secret (cconf cl)) of
                Fault \<Rightarrow> (ReplyFault, P)
              | Hang \<Rightarrow> (ReplyFault, P)
              | Ret (False, b') \<Rightarrow> (SignFailed, P)
              | Ret (True, b') \<Rightarrow>
                  let rq = replyq_heap P ! q in
                  if length (replies rq) = qsize rq then (QueueFull, P)
                  else if MAX_REQUESTS \<le> length (replies rq) then (ReplyFault, P)
                  else (Enqueued,
                        P\<lparr>replyq_heap := (replyq_heap P)
                             [q := rq\<lparr>replies := replies rq @ [\<lparr>rbuf = b', tosa = sa\<rparr>]\<rparr>]\<rparr>))"

text \<open>The address a reply goes to: \<^verbatim>\<open>rq->from->conf->type == 'U' ? &rq->fromsa : NULL\<close>.\<close>

definition reply_tosa :: "proxy \<Rightarrow> request \<Rightarrow> sockaddr option outcome" where
  "reply_tosa P rq =
     (case rqfrom rq of
        None \<Rightarrow> Fault
      | Some c \<Rightarrow>
          if length (client_heap P) \<le> c then Fault
          else Ret (if ctype (cconf (client_heap P ! c)) = UDP then Some (fromsa rq) else None))"

text \<open>\<^verbatim>\<open>respondstatusserver(rq)\<close>: an empty Access-Accept with the header of the request.\<close>

definition respondstatusserver :: "proxy \<Rightarrow> request \<Rightarrow> u8 list \<Rightarrow> sendreply_result \<times> proxy" where
  "respondstatusserver P rq b =
     (case reply_tosa P rq of
        Ret sa \<Rightarrow> sendreply P (rqfrom rq) ((take 20 b)[0 := RAD_Access_Accept, 2 := 0, 3 := 20]) sa
      | r \<Rightarrow> (ReplyFault, P))"

text \<open>
  \<^verbatim>\<open>respondreject(rq, message)\<close>: an Access-Reject with the header of the request and, if
  the realm has a message, one Reply-Message attribute.
\<close>

definition respondreject :: "proxy \<Rightarrow> request \<Rightarrow> u8 list \<Rightarrow> u8 list option \<Rightarrow> sendreply_result \<times> proxy" where
  "respondreject P rq b msg =
     (let len = 20 + (case msg of None \<Rightarrow> 0 | Some m \<Rightarrow> 2 + length m);
          hdr = (take 20 b)[0 := RAD_Access_Reject,
                            2 := word_of_nat (len div 256), 3 := word_of_nat len];
          resp = (case msg of
                    None \<Rightarrow> hdr
                  | Some m \<Rightarrow> hdr @ [RAD_Attr_Reply_Message, word_of_nat (len - 20)] @ m)
      in case reply_tosa P rq of
           Ret sa \<Rightarrow> sendreply P (rqfrom rq) resp sa
         | r \<Rightarrow> (ReplyFault, P))"

section \<open>Requests from clients\<close>

text \<open>
  \<^verbatim>\<open>id2realm(id, len)\<close>: the first realm whose regular expression matches the user name.
\<close>

fun id2realm :: "realm list \<Rightarrow> u8 list \<Rightarrow> realm option" where
  "id2realm [] ident = None"
| "id2realm (r # rs) ident = (if regex r ident then Some r else id2realm rs ident)"

datatype ignore_reason =
  BadCode | BadAttrs | NoUsername | NoRealm | Duplicate | MsgAuthFailed
  | RandFailed | PwdFailed | TunnelPwdFailed

datatype route = RouteIgnored ignore_reason | RouteFault | RouteHang | Routed "realm option" "nat option"

text \<open>
  The part of \<^verbatim>\<open>radsrv\<close> that finds where an Access-Request goes, after its attributes
  were validated: the User-Name is copied into a zero-terminated string, the realm is
  looked up and \<^verbatim>\<open>to = realm->srvconf->servers\<close> is read. \<^verbatim>\<open>addrealm\<close> leaves
  \<^verbatim>\<open>srvconf\<close> null for a realm without a server, and the code reads \<^verbatim>\<open>servers\<close> through
  it without a test.
\<close>

definition radsrv_lookup :: "proxy \<Rightarrow> u8 list \<Rightarrow> int \<Rightarrow> route" where
  "radsrv_lookup P b len =
     (case attrget b 20 len RAD_Attr_User_Name of
        Fault \<Rightarrow> RouteFault
      | Hang \<Rightarrow> RouteHang
      | Ret None \<Rightarrow> RouteIgnored NoUsername
      | Ret (Some attr) \<Rightarrow>
          if ATTRVALLEN b attr < 0 \<or> length b < ATTRVAL attr + nat (ATTRVALLEN b attr)
          then RouteFault
          else
            let username =
                  takeWhile (\<lambda>c. c \<noteq> 0) (bytes_at b (ATTRVAL attr) (nat (ATTRVALLEN b attr)))
            in case id2realm (realms P) username of
                 None \<Rightarrow> RouteIgnored NoRealm
               | Some realm \<Rightarrow>
                   (case srvconf realm of
                      None \<Rightarrow> RouteFault
                    | Some c \<Rightarrow>
                        if length (srvconfs P) \<le> c then RouteFault
                        else
                          (case servers (srvconfs P ! c) of
                             None \<Rightarrow> Routed (Some realm) None
                           | Some t \<Rightarrow>
                               if length (server_heap P) \<le> t then RouteFault
                               else Routed (Some realm) (Some t))))"

text \<open>
  \<^verbatim>\<open>if (to && rqinqueue(to, rq->from, id))\<close>: a request that the table of \<open>to\<close> already
  holds is ignored.
\<close>

definition radsrv_route :: "proxy \<Rightarrow> request \<Rightarrow> u8 list \<Rightarrow> int \<Rightarrow> route" where
  "radsrv_route P rq b len =
     (case radsrv_lookup P b len of
        Routed realm (Some t) \<Rightarrow>
          if rqinqueue (server_heap P ! t) (rqfrom rq) (b ! 1) then RouteIgnored Duplicate
          else Routed realm (Some t)
      | r \<Rightarrow> r)"

text \<open>\<^verbatim>\<open>rq->from->conf->secret\<close>.\<close>

definition client_secret :: "proxy \<Rightarrow> nat option \<Rightarrow> u8 list outcome" where
  "client_secret P fr =
     (case fr of
        None \<Rightarrow> Fault
      | Some c \<Rightarrow> if length (client_heap P) \<le> c then Fault
                  else Ret (secret (cconf (client_heap P ! c))))"

text \<open>
  What \<^verbatim>\<open>radsrv\<close> takes from its environment: the 16 bytes of \<^verbatim>\<open>RAND_bytes\<close> (\<open>None\<close> when
  it fails) and the bytes that lie below \<^verbatim>\<open>out\<close> in the frame of \<^verbatim>\<open>pwdencrypt\<close> at its two
  calls.
\<close>

record radenv =
  rand_bytes :: "u8 list option"
  below_pwd :: "u8 list"
  below_tunnel :: "u8 list"

text \<open>The two blocks of \<^verbatim>\<open>radsrv\<close> that re-encrypt User-Password and Tunnel-Password.\<close>

definition radsrv_pwd ::
  "proxy \<Rightarrow> request \<Rightarrow> u8 list \<Rightarrow> int \<Rightarrow> u8 \<Rightarrow> u8 list \<Rightarrow> u8 list \<Rightarrow> u8 list \<Rightarrow> u8 list option outcome" where
  "radsrv_pwd P rq b len ty tosecret newauth below =
     (case attrget b 20 len ty of
        Fault \<Rightarrow> Fault
      | Hang \<Rightarrow> Hang
      | Ret None \<Rightarrow> Ret (Some b)
      | Ret (Some attr) \<Rightarrow>
          (case client_secret P (rqfrom rq) of
             Ret cs \<Rightarrow>
               pwdrecrypt b (ATTRVAL attr) (nat (ATTRVALLEN b attr mod 256)) cs tosecret
                 (bytes_at b 4 16) newauth below
           | Fault \<Rightarrow> Fault
           | Hang \<Rightarrow> Hang))"

datatype radsrv_result =
  Ignored ignore_reason | Responded sendreply_result | Forwarded nat sendrq_result
  | SrvFault | SrvHang

text \<open>
  The end of \<^verbatim>\<open>radsrv\<close> for a request with a server: a new authenticator, the passwords
  re-encrypted, the original identifier and authenticator kept in the request, and
  \<^verbatim>\<open>sendrq\<close>.
\<close>

definition radsrv_forward ::
  "proxy \<Rightarrow> request \<Rightarrow> u8 \<Rightarrow> u8 list \<Rightarrow> int \<Rightarrow> nat \<Rightarrow> radenv \<Rightarrow> radsrv_result \<times> proxy" where
  "radsrv_forward P rq ident b len t env =
     (case rand_bytes env of
        None \<Rightarrow> (Ignored RandFailed, P)
      | Some newauth \<Rightarrow>
          let to = server_heap P ! t in
          case radsrv_pwd P rq b len RAD_Attr_User_Password (secret (conf to)) newauth
                 (below_pwd env) of
            Fault \<Rightarrow> (SrvFault, P)
          | Hang \<Rightarrow> (SrvHang, P)
          | Ret None \<Rightarrow> (Ignored PwdFailed, P)
          | Ret (Some b1) \<Rightarrow>
              (case radsrv_pwd P rq b1 len RAD_Attr_Tunnel_Password (secret (conf to)) newauth
                      (below_tunnel env) of
                 Fault \<Rightarrow> (SrvFault, P)
               | Hang \<Rightarrow> (SrvHang, P)
               | Ret None \<Rightarrow> (Ignored TunnelPwdFailed, P)
               | Ret (Some b2) \<Rightarrow>
                   (case sendrq to (rq\<lparr>origid := ident, origauth := bytes_at b2 4 16,
                                        buf := Some (write_at b2 4 newauth)\<rparr>) of
                      (r, to') \<Rightarrow> (Forwarded t r, P\<lparr>server_heap := (server_heap P)[t := to']\<rparr>))))"

text \<open>
  \<^verbatim>\<open>radsrv(rq)\<close>. The length is a \<^verbatim>\<open>uint16_t\<close> from which 20 is subtracted. The result says
  what became of the request, and comes with the state of the proxy afterwards.
\<close>

definition radsrv :: "proxy \<Rightarrow> request \<Rightarrow> radenv \<Rightarrow> radsrv_result \<times> proxy" where
  "radsrv P rq env =
     (case buf rq of
        None \<Rightarrow> (SrvFault, P)
      | Some b \<Rightarrow>
          if length b < 20 then (SrvFault, P)
          else
            let code = b ! 0;
                len = int ((RADLEN b + 65536 - 20) mod 65536)
            in if code \<noteq> RAD_Access_Request \<and> code \<noteq> RAD_Status_Server
               then (Ignored BadCode, P)
               else
                 case attrvalidate b 20 len of
                   Fault \<Rightarrow> (SrvFault, P)
                 | Hang \<Rightarrow> (SrvHang, P)
                 | Ret False \<Rightarrow> (Ignored BadAttrs, P)
                 | Ret True \<Rightarrow>
                     (case (if code = RAD_Access_Request then radsrv_route P rq b len
                            else Routed None None) of
                        RouteIgnored r \<Rightarrow> (Ignored r, P)
                      | RouteFault \<Rightarrow> (SrvFault, P)
                      | RouteHang \<Rightarrow> (SrvHang, P)
                      | Routed realm to \<Rightarrow>
                          (case attrget b 20 len RAD_Attr_Message_Authenticator of
                             Fault \<Rightarrow> (SrvFault, P)
                           | Hang \<Rightarrow> (SrvHang, P)
                           | Ret attr \<Rightarrow>
                               (case (case attr of
                                        None \<Rightarrow> Ret (True, b)
                                      | Some a \<Rightarrow>
                                          if ATTRVALLEN b a \<noteq> 16 then Ret (False, b)
                                          else
                                            (case client_secret P (rqfrom rq) of
                                               Ret cs \<Rightarrow> checkmessageauth b (ATTRVAL a) cs
                                             | Fault \<Rightarrow> Fault
                                             | Hang \<Rightarrow> Hang)) of
                                  Fault \<Rightarrow> (SrvFault, P)
                                | Hang \<Rightarrow> (SrvHang, P)
                                | Ret (False, b1) \<Rightarrow> (Ignored MsgAuthFailed, P)
                                | Ret (True, b1) \<Rightarrow>
                                    if code = RAD_Status_Server then
                                      (case respondstatusserver P rq b1 of
                                         (r, P') \<Rightarrow> (Responded r, P'))
                                    else
                                      (case to of
                                         None \<Rightarrow>
                                           (case realm of
                                              None \<Rightarrow> (SrvFault, P)
                                            | Some rl \<Rightarrow>
                                                (case respondreject P rq b1 (message rl) of
                                                   (r, P') \<Rightarrow> (Responded r, P')))
                                       | Some t \<Rightarrow> radsrv_forward P rq (b ! 1) b1 len t env)))))"

section \<open>Replies from servers\<close>

datatype discard_reason =
  BadReplyCode | NoMatchingRequest | AlreadyReceived | InvalidAuth | BadReplyAttrs
  | BadMsgAuthLen | ReplyMsgAuthFailed | MSAttrFailed | ReplyAuthFailed

text \<open>
  The Message-Authenticator block of \<^verbatim>\<open>clientrd\<close>: the authenticator of the request is
  put into bytes 4..20 for the check and the bytes of the reply are put back after it. The
  result is the reason to discard the reply, or the pointer \<^verbatim>\<open>messageauth\<close> with the
  buffer.
\<close>

definition clientrd_msgauth ::
  "u8 list \<Rightarrow> int \<Rightarrow> u8 list \<Rightarrow> u8 list \<Rightarrow> (discard_reason + nat option \<times> u8 list) outcome" where
  "clientrd_msgauth b len rqbuf ssecret =
     (case attrget b 20 len RAD_Attr_Message_Authenticator of
        Fault \<Rightarrow> Fault
      | Hang \<Rightarrow> Hang
      | Ret None \<Rightarrow> Ret (Inr (None, b))
      | Ret (Some ma) \<Rightarrow>
          if ATTRVALLEN b ma \<noteq> 16 then Ret (Inl BadMsgAuthLen)
          else if length rqbuf < 20 then Fault
          else
            let tmp = bytes_at b 4 16;
                b1 = write_at b 4 (bytes_at rqbuf 4 16)
            in case checkmessageauth b1 (ATTRVAL ma) ssecret of
                 Fault \<Rightarrow> Fault
               | Hang \<Rightarrow> Hang
               | Ret (False, b2) \<Rightarrow> Ret (Inl ReplyMsgAuthFailed)
               | Ret (True, b2) \<Rightarrow> Ret (Inr (Some ma, write_at b2 4 tmp)))"

text \<open>
  One round of the loop over the Vendor-Specific attributes,
  \<^verbatim>\<open>for (attr = attrs; (attr = attrget(attr, len - (attr - attrs), 26)); attr += ATTRLEN(attr))\<close>,
  from the pointer \<open>attr0\<close>: the loop ends with a null pointer (\<open>VsDone\<close>), it is left by
  \<^verbatim>\<open>break\<close> with the pointer at an attribute (\<open>VsBreak\<close>), or it goes on behind the
  attribute (\<open>VsNext\<close>). \<open>ns\<close> is the secret of the client the request came from, \<open>None\<close>
  if the request has no client.
\<close>

datatype vs_step = VsDone | VsBreak nat | VsNext "u8 list" nat

definition clientrd_vsattr ::
  "u8 list \<Rightarrow> int \<Rightarrow> u8 list \<Rightarrow> u8 list option \<Rightarrow> u8 list \<Rightarrow> u8 list \<Rightarrow> nat \<Rightarrow> vs_step outcome" where
  "clientrd_vsattr b len os ns oa na attr0 =
     (case attrget b attr0 (len - (int attr0 - 20)) RAD_Attr_Vendor_Specific of
        Fault \<Rightarrow> Fault
      | Hang \<Rightarrow> Hang
      | Ret None \<Rightarrow> Ret VsDone
      | Ret (Some attr) \<Rightarrow>
          if length b \<le> attr + 1 then Fault
          else if ATTRVALLEN b attr \<le> 4 then Ret (VsBreak attr)
          else if length b < attr + 6 then Fault
          else if b ! (attr + 2) \<noteq> 0 \<or> b ! (attr + 3) \<noteq> 0 \<or>
                  256 * unat (b ! (attr + 4)) + unat (b ! (attr + 5)) \<noteq> 311
          then Ret (VsNext b (attr + ATTRLEN b attr))
          else
            let sublen = ATTRVALLEN b attr - 4;
                subattrs = ATTRVAL attr + 4
            in case attrvalidate b subattrs sublen of
                 Fault \<Rightarrow> Fault
               | Hang \<Rightarrow> Hang
               | Ret False \<Rightarrow> Ret (VsBreak attr)
               | Ret True \<Rightarrow>
                   (case ns of
                      None \<Rightarrow> Fault
                    | Some cs \<Rightarrow>
                        (case msmppe b subattrs sublen RAD_VS_ATTR_MS_MPPE_Send_Key os cs oa na of
                           Fault \<Rightarrow> Fault
                         | Hang \<Rightarrow> Hang
                         | Ret None \<Rightarrow> Ret (VsBreak attr)
                         | Ret (Some b1) \<Rightarrow>
                             (case msmppe b1 subattrs sublen RAD_VS_ATTR_MS_MPPE_Recv_Key
                                     os cs oa na of
                                Fault \<Rightarrow> Fault
                              | Hang \<Rightarrow> Hang
                              | Ret None \<Rightarrow> Ret (VsBreak attr)
                              | Ret (Some b2) \<Rightarrow> Ret (VsNext b2 (attr + ATTRLEN b2 attr))))))"

text \<open>
  The loop: the pointer \<open>attr\<close> it ends with (null if it ran to the end) and the buffer.
\<close>

function clientrd_vsattrs ::
  "int \<Rightarrow> u8 list \<Rightarrow> u8 list option \<Rightarrow> u8 list \<Rightarrow> u8 list \<Rightarrow> u8 list \<Rightarrow> nat \<Rightarrow> (nat option \<times> u8 list) outcome" where
  "clientrd_vsattrs len os ns oa na b attr0 =
     (case clientrd_vsattr b len os ns oa na attr0 of
        Ret VsDone \<Rightarrow> Ret (None, b)
      | Ret (VsBreak a) \<Rightarrow> Ret (Some a, b)
      | Ret (VsNext b' attr') \<Rightarrow> clientrd_vsattrs len os ns oa na b' attr'
      | Fault \<Rightarrow> Fault
      | Hang \<Rightarrow> Hang)"
  by pat_completeness auto

text \<open>
  A round of the loop that goes on to another round: from the buffer and pointer \<open>s\<close> to the
  buffer and pointer \<open>s'\<close>. The rounds the loop reaches from its start are the reflexive
  transitive closure of this relation.
\<close>

definition vs_round ::
  "int \<Rightarrow> u8 list \<Rightarrow> u8 list option \<Rightarrow> u8 list \<Rightarrow> u8 list \<Rightarrow> u8 list \<times> nat \<Rightarrow> u8 list \<times> nat \<Rightarrow> bool" where
  "vs_round len os ns oa na s s' =
     (clientrd_vsattr (fst s) len os ns oa na (snd s) = Ret (VsNext (fst s') (snd s')))"

datatype clientrd_result =
  Discarded discard_reason | StatusServerReply
  | Handed "nat option" "u8 list" "sockaddr option" sendreply_result
  | RdFault | RdHang

text \<open>
  The end of a round of \<^verbatim>\<open>clientrd\<close>: the identifier and the authenticator of the
  client's request are written into the reply, the Message-Authenticator (if the reply has
  one) is computed anew with the client's secret, the request is marked as received, and
  \<^verbatim>\<open>sendreply(from, buf, ...)\<close> is called. \<open>Handed from b sa r\<close> is this call with its
  arguments and what \<^verbatim>\<open>sendreply\<close> made of it.
\<close>

definition clientrd_deliver ::
  "proxy \<Rightarrow> nat \<Rightarrow> nat \<Rightarrow> request \<Rightarrow> nat option \<Rightarrow> u8 list \<Rightarrow> clientrd_result \<times> proxy" where
  "clientrd_deliver P s i rq messageauth b =
     (let b1 = write_at (b[1 := origid rq]) 4 (origauth rq)
      in case (case messageauth of
                 None \<Rightarrow> Ret (True, b1)
               | Some ma \<Rightarrow>
                   (case client_secret P (rqfrom rq) of
                      Ret cs \<Rightarrow> createmessageauth b1 (Some (ATTRVAL ma)) cs
                    | Fault \<Rightarrow> Fault
                    | Hang \<Rightarrow> Hang)) of
           Fault \<Rightarrow> (RdFault, P)
         | Hang \<Rightarrow> (RdHang, P)
         | Ret (False, b2) \<Rightarrow> (Discarded ReplyAuthFailed, P)
         | Ret (True, b2) \<Rightarrow>
             (case reply_tosa P rq of
                Fault \<Rightarrow> (RdFault, P)
              | Hang \<Rightarrow> (RdHang, P)
              | Ret sa \<Rightarrow>
                  let server = server_heap P ! s;
                      P1 = P\<lparr>server_heap := (server_heap P)
                             [s := server\<lparr>requests := (requests server)
                                      [i := (requests server ! i)\<lparr>received := True\<rparr>]\<rparr>]\<rparr>
                  in case sendreply P1 (rqfrom rq) b2 sa of
                       (r, P2) \<Rightarrow> (Handed (rqfrom rq) b2 sa r, P2)))"

text \<open>
  For an Access-Accept and an Access-Reject the user name of the stored request is copied
  into \<^verbatim>\<open>tmp[256]\<close> for the log: \<^verbatim>\<open>attrget\<close> on the stored request and then
  \<^verbatim>\<open>memcpy(tmp, ATTRVAL(attr), ATTRVALLEN(attr))\<close> with no test of \<open>attr\<close>. A stored
  request without a User-Name is a read through a null pointer; a length byte below 2 is a
  copy of a negative number of bytes.
\<close>

definition clientrd_username :: "u8 list \<Rightarrow> u8 list \<Rightarrow> u8 list option outcome" where
  "clientrd_username b rqbuf =
     (if b ! 0 = RAD_Access_Accept \<or> b ! 0 = RAD_Access_Reject then
        (case attrget rqbuf 20 (int (RADLEN rqbuf) - 20) RAD_Attr_User_Name of
           Fault \<Rightarrow> Fault
         | Hang \<Rightarrow> Hang
         | Ret None \<Rightarrow> Fault
         | Ret (Some attr) \<Rightarrow>
             if ATTRVALLEN rqbuf attr < 0 \<or>
                length rqbuf < ATTRVAL attr + nat (ATTRVALLEN rqbuf attr)
             then Fault
             else Ret (Some (bytes_at rqbuf (ATTRVAL attr) (nat (ATTRVALLEN rqbuf attr)))))
      else Ret None)"

text \<open>
  The middle of a round, for a reply that matched a request: the attributes are validated,
  the Message-Authenticator is checked, the reply to a Status-Server request only marks
  it as received, the Vendor-Specific attributes are gone through, and the user name is
  read for the log.
\<close>

definition clientrd_checked ::
  "proxy \<Rightarrow> nat \<Rightarrow> nat \<Rightarrow> request \<Rightarrow> u8 list \<Rightarrow> u8 list \<Rightarrow> clientrd_result \<times> proxy" where
  "clientrd_checked P s i rq rqbuf b =
     (let server = server_heap P ! s;
          len = int (RADLEN b) - 20
      in case attrvalidate b 20 len of
           Fault \<Rightarrow> (RdFault, P)
         | Hang \<Rightarrow> (RdHang, P)
         | Ret False \<Rightarrow> (Discarded BadReplyAttrs, P)
         | Ret True \<Rightarrow>
             (case clientrd_msgauth b len rqbuf (secret (conf server)) of
                Fault \<Rightarrow> (RdFault, P)
              | Hang \<Rightarrow> (RdHang, P)
              | Ret (Inl r) \<Rightarrow> (Discarded r, P)
              | Ret (Inr (messageauth, b1)) \<Rightarrow>
                  if rqbuf ! 0 = RAD_Status_Server then
                    (StatusServerReply,
                     P\<lparr>server_heap := (server_heap P)
                          [s := server\<lparr>requests := (requests server)
                                   [i := (requests server ! i)\<lparr>received := True\<rparr>]\<rparr>]\<rparr>)
                  else
                    (case clientrd_vsattrs len (secret (conf server))
                            (case client_secret P (rqfrom rq) of Ret cs \<Rightarrow> Some cs | r \<Rightarrow> None)
                            (bytes_at rqbuf 4 16) (origauth rq) b1 20 of
                       Fault \<Rightarrow> (RdFault, P)
                     | Hang \<Rightarrow> (RdHang, P)
                     | Ret (Some a, b2) \<Rightarrow> (Discarded MSAttrFailed, P)
                     | Ret (None, b2) \<Rightarrow>
                         (case clientrd_username b2 rqbuf of
                            Fault \<Rightarrow> (RdFault, P)
                          | Hang \<Rightarrow> (RdHang, P)
                          | Ret tmp \<Rightarrow> clientrd_deliver P s i rq messageauth b2))))"

text \<open>
  A round of the loop of \<^verbatim>\<open>clientrd\<close> for the server \<open>s\<close> and a packet \<open>b\<close> that
  \<^verbatim>\<open>radudpget\<close> or \<^verbatim>\<open>radtlsget\<close> returned (both return at least 20 bytes).
\<close>

definition clientrd :: "proxy \<Rightarrow> nat \<Rightarrow> u8 list \<Rightarrow> clientrd_result \<times> proxy" where
  "clientrd P s b =
     (if length (server_heap P) \<le> s \<or> length b < 20 then (RdFault, P)
      else
        let server = (server_heap P ! s)\<lparr>connectionok := True\<rparr>;
            P0 = P\<lparr>server_heap := (server_heap P)[s := server]\<rparr>;
            i = unat (b ! 1)
        in if b ! 0 \<noteq> RAD_Access_Accept \<and> b ! 0 \<noteq> RAD_Access_Reject \<and>
              b ! 0 \<noteq> RAD_Access_Challenge
           then (Discarded BadReplyCode, P0)
           else if length (requests server) \<le> i then (RdFault, P0)
           else
             let rq = requests server ! i in
             case buf rq of
               None \<Rightarrow> (Discarded NoMatchingRequest, P0)
             | Some rqbuf \<Rightarrow>
                 if tries rq = 0 then (Discarded NoMatchingRequest, P0)
                 else if received rq then (Discarded AlreadyReceived, P0)
                 else if length rqbuf < 20 then (RdFault, P0)
                 else
                   (case validauth b (bytes_at rqbuf 4 16) (secret (conf server)) of
                      Fault \<Rightarrow> (RdFault, P0)
                    | Hang \<Rightarrow> (RdHang, P0)
                    | Ret False \<Rightarrow> (Discarded InvalidAuth, P0)
                    | Ret True \<Rightarrow> clientrd_checked P0 s i rq rqbuf b))"

section \<open>The writer of a server\<close>

datatype sweep_action = FreeReceived | NotDue | Expire bool | Transmit "u8 list"

text \<open>
  What the loop over the table in \<^verbatim>\<open>clientwr\<close> does with an occupied slot at the time
  \<open>now\<close>: a received request is freed; one whose \<^verbatim>\<open>expiry\<close> lies ahead is left alone; one
  that has had all its tries is freed, with a warning if it was a Status-Server request
  (the flag of \<open>Expire\<close>); any other gets a new \<^verbatim>\<open>expiry\<close>, one more try, and is sent with
  \<^verbatim>\<open>clientradput\<close>. The third component is \<^verbatim>\<open>timeout.tv_sec\<close>.
\<close>

definition clientwr_slot ::
  "transport \<Rightarrow> int \<Rightarrow> int \<Rightarrow> request \<Rightarrow> u8 list \<Rightarrow> sweep_action \<times> request \<times> int" where
  "clientwr_slot ty now timeout rq b =
     (if received rq then (FreeReceived, rq\<lparr>buf := None\<rparr>, timeout)
      else if now < tv_sec (expiry rq) then
        (NotDue, rq,
         if timeout = 0 \<or> tv_sec (expiry rq) < timeout then tv_sec (expiry rq) else timeout)
      else if tries rq = (if b ! 0 = RAD_Status_Server \<or> ty = TLS then 1 else REQUEST_RETRIES)
      then (Expire (b ! 0 = RAD_Status_Server), rq\<lparr>buf := None\<rparr>, timeout)
      else
        let e = now + (if b ! 0 = RAD_Status_Server \<or> ty = TLS then REQUEST_EXPIRY
                       else REQUEST_EXPIRY div int REQUEST_RETRIES)
        in (Transmit b,
            rq\<lparr>expiry := (expiry rq)\<lparr>tv_sec := e\<rparr>, tries := tries rq + 1\<rparr>,
            if timeout = 0 \<or> e < timeout then e else timeout))"

text \<open>
  The loop over the table, from slot \<open>i\<close>. \<open>now i\<close> is the time \<^verbatim>\<open>gettimeofday\<close> gives when
  slot \<open>i\<close> is looked at. (The inner \<^verbatim>\<open>while\<close> tests the buffer of slot \<open>i\<close> before it tests
  \<^verbatim>\<open>i < MAX_REQUESTS\<close>, so it reads one entry behind the table when it runs off the end;
  whatever it reads there, the loop ends with \<open>i = MAX_REQUESTS\<close>.)
\<close>

function clientwr_sweep ::
  "server \<Rightarrow> (nat \<Rightarrow> int) \<Rightarrow> int \<Rightarrow> nat \<Rightarrow> (nat \<times> sweep_action) list \<times> server \<times> int" where
  "clientwr_sweep server now timeout i =
     (if i < MAX_REQUESTS then
        (case buf (requests server ! i) of
           None \<Rightarrow> clientwr_sweep server now timeout (Suc i)
         | Some b \<Rightarrow>
             (case clientwr_slot (ctype (conf server)) (now i) timeout (requests server ! i) b of
                (act, rq', timeout') \<Rightarrow>
                  (case clientwr_sweep (server\<lparr>requests := (requests server)[i := rq']\<rparr>)
                          now timeout' (Suc i) of
                     (acts, server', t) \<Rightarrow> ((i, act) # acts, server', t))))
      else ([], server, timeout))"
  by pat_completeness auto
termination
  by (relation "measure (\<lambda>(server, now, timeout, i). MAX_REQUESTS - i)") auto

declare clientwr_sweep.simps [simp del]






section \<open>Connecting to a TLS server\<close>

text \<open>
  The pause at the head of the loop in \<^verbatim>\<open>tlsconnect\<close>, at the time \<open>now\<close>: the seconds
  slept (\<open>None\<close> when the code does not call \<^verbatim>\<open>sleep\<close>) and the server afterwards.
\<close>

definition tlsconnect_pause :: "server \<Rightarrow> int \<Rightarrow> int option \<times> server" where
  "tlsconnect_pause server now =
     (let elapsed = now - tv_sec (lastconnecttry server) in
      if connectionok server then (Some 10, server\<lparr>connectionok := False\<rparr>)
      else if elapsed < 5 then (Some 10, server)
      else if elapsed < 300 then (Some elapsed, server)
      else if elapsed < 100000 then (Some 600, server)
      else (None, server\<lparr>lastconnecttry := (lastconnecttry server)\<lparr>tv_sec := now\<rparr>\<rparr>))"

text \<open>
  The loop: each attempt is a time \<open>now\<close> and whether connecting, the handshake and the
  check of the certificate succeeded. The result is the list of pauses, one before each
  attempt made, and the server; \<open>None\<close> when all the attempts given have failed and the
  loop is still going.
\<close>

fun tlsconnect_loop ::
  "server \<Rightarrow> (int \<times> bool) list \<Rightarrow> int option list \<Rightarrow> (int option list \<times> server) option" where
  "tlsconnect_loop server [] pauses = None"
| "tlsconnect_loop server ((now, up) # attempts) pauses =
     (case tlsconnect_pause server now of
        (p, server') \<Rightarrow>
          if up then Some (pauses @ [p], server')
          else tlsconnect_loop server' attempts (pauses @ [p]))"

text \<open>
  \<^verbatim>\<open>tlsconnect(server, when, text)\<close>: nothing happens when \<open>when\<close> is given and differs from
  \<^verbatim>\<open>lastconnecttry\<close> (another thread has reconnected); at the end \<^verbatim>\<open>lastconnecttry\<close> is
  the time \<open>done\<close>.
\<close>

definition tlsconnect ::
  "server \<Rightarrow> timeval option \<Rightarrow> (int \<times> bool) list \<Rightarrow> timeval \<Rightarrow> (int option list \<times> server) option" where
  "tlsconnect server whn attempts done =
     (if whn \<noteq> None \<and> whn \<noteq> Some (lastconnecttry server) then Some ([], server)
      else
        case tlsconnect_loop server attempts [] of
          None \<Rightarrow> None
        | Some (pauses, server') \<Rightarrow> Some (pauses, server'\<lparr>lastconnecttry := done\<rparr>))"

section \<open>A small configuration\<close>

text \<open>
  One UDP client and one UDP server with the secret \<^verbatim>\<open>testing123\<close>, a realm that matches
  every user name, and an Access-Request with the identifier \<^verbatim>\<open>2a\<close> for the user
  \<^verbatim>\<open>alice\<close>, as \<^verbatim>\<open>udpserverrd\<close> hands it to \<^verbatim>\<open>radsrv\<close>. The properties below are
  evaluated on them.
\<close>

definition testing123 :: "u8 list" where
  "testing123 = [0x74, 0x65, 0x73, 0x74, 0x69, 0x6e, 0x67, 0x31, 0x32, 0x33]"

definition ex_clconf :: clsrvconf where
  "ex_clconf = \<lparr>ctype = UDP, host = ''client.example.org'', secret = testing123,
                statusserver = False, servers = None\<rparr>"

definition ex_srvconf :: clsrvconf where
  "ex_srvconf = \<lparr>ctype = UDP, host = ''server.example.org'', secret = testing123,
                 statusserver = False, servers = Some 0\<rparr>"

definition ex_free :: request where
  "ex_free = \<lparr>buf = None, rqfrom = None, fromsa = 0, origid = 0, origauth = replicate 16 0,
              expiry = \<lparr>tv_sec = 0, tv_usec = 0\<rparr>, tries = 0, received = False\<rparr>"

definition ex_access_request :: "u8 list" where
  "ex_access_request =
     [0x01, 0x2a, 0x00, 0x1b,
      0x00, 0x01, 0x02, 0x03, 0x04, 0x05, 0x06, 0x07,
      0x08, 0x09, 0x0a, 0x0b, 0x0c, 0x0d, 0x0e, 0x0f,
      0x01, 0x07, 0x61, 0x6c, 0x69, 0x63, 0x65]"

definition ex_request :: request where
  "ex_request = ex_free\<lparr>buf := Some ex_access_request, rqfrom := Some 0, fromsa := 7\<rparr>"

definition ex_server :: server where
  "ex_server = \<lparr>conf = ex_srvconf, lastconnecttry = \<lparr>tv_sec = 0, tv_usec = 0\<rparr>,
                connectionok = False, nextid = 0, requests = replicate 256 ex_free,
                newrq = False\<rparr>"

definition ex_realm :: realm where
  "ex_realm = \<lparr>name = ''*'', regex = (\<lambda>u. True), message = None, srvconf = Some 0\<rparr>"

definition ex_realm_noserver :: realm where
  "ex_realm_noserver =
     \<lparr>name = ''*'', regex = (\<lambda>u. True),
      message = Some [0x64, 0x65, 0x6e, 0x69, 0x65, 0x64], srvconf = None\<rparr>"

definition ex_proxy :: "realm list \<Rightarrow> server \<Rightarrow> proxy" where
  "ex_proxy rs srv =
     \<lparr>realms = rs, srvconfs = [ex_srvconf],
      client_heap = [\<lparr>cconf = ex_clconf, creplyq = 0\<rparr>],
      server_heap = [srv],
      replyq_heap = [\<lparr>replies = [], qsize = 256\<rparr>]\<rparr>"

definition ex_env :: radenv where
  "ex_env = \<lparr>rand_bytes = Some [0x10, 0x11, 0x12, 0x13, 0x14, 0x15, 0x16, 0x17,
                                 0x18, 0x19, 0x1a, 0x1b, 0x1c, 0x1d, 0x1e, 0x1f],
             below_pwd = replicate 16 0, below_tunnel = replicate 16 0\<rparr>"

text \<open>
  The request as \<^verbatim>\<open>sendrq\<close> stores it in slot 0 of the empty table, the server after
  that, and both after the writer has sent the request once at the time 100.
\<close>

definition ex_forwarded :: request where
  "ex_forwarded =
     ex_free\<lparr>buf := Some [0x01, 0x00, 0x00, 0x1b,
                            0x10, 0x11, 0x12, 0x13, 0x14, 0x15, 0x16, 0x17,
                            0x18, 0x19, 0x1a, 0x1b, 0x1c, 0x1d, 0x1e, 0x1f,
                            0x01, 0x07, 0x61, 0x6c, 0x69, 0x63, 0x65],
             rqfrom := Some 0, fromsa := 7, origid := 0x2a,
             origauth := [0x00, 0x01, 0x02, 0x03, 0x04, 0x05, 0x06, 0x07,
                          0x08, 0x09, 0x0a, 0x0b, 0x0c, 0x0d, 0x0e, 0x0f]\<rparr>"

definition ex_server_forwarded :: server where
  "ex_server_forwarded =
     ex_server\<lparr>requests := (replicate 256 ex_free)[0 := ex_forwarded],
               nextid := 1, newrq := True\<rparr>"

definition ex_server_inflight :: server where
  "ex_server_inflight =
     ex_server\<lparr>requests := (replicate 256 ex_free)
                  [0 := ex_forwarded\<lparr>tries := 1, expiry := \<lparr>tv_sec = 106, tv_usec = 0\<rparr>\<rparr>],
               nextid := 1\<rparr>"

text \<open>
  Three replies of the server to that request, each with the Response Authenticator that
  belongs to it: an Access-Accept without attributes, one with a Message-Authenticator, and
  one with a Vendor-Specific attribute of vendor 9 followed by a Vendor-Specific attribute
  that has only the four bytes of a vendor id.
\<close>

definition ex_reply_accept :: "u8 list" where
  "ex_reply_accept =
     [0x02, 0x00, 0x00, 0x14, 0x30, 0xe5, 0xdf, 0xda,
      0x9f, 0x13, 0x1e, 0xe1, 0xfd, 0x09, 0x32, 0x1c,
      0x3b, 0x3f, 0x74, 0xa2]"

definition ex_reply_msgauth :: "u8 list" where
  "ex_reply_msgauth =
     [0x02, 0x00, 0x00, 0x26, 0xcc, 0xe3, 0xfe, 0x9b,
      0x63, 0x20, 0x56, 0xb2, 0x89, 0x4b, 0x0e, 0xf5,
      0xa2, 0xc7, 0xe7, 0x99, 0x50, 0x12, 0xe1, 0x46,
      0x6c, 0xfc, 0xea, 0xc1, 0xc8, 0x27, 0xe6, 0x3d,
      0xd1, 0x6e, 0xe6, 0x23, 0x2b, 0x45]"

definition ex_reply_shortvsa :: "u8 list" where
  "ex_reply_shortvsa =
     [0x02, 0x00, 0x00, 0x22, 0x1f, 0x5f, 0x9b, 0x2f,
      0x61, 0xdd, 0xac, 0xdd, 0x35, 0x68, 0x72, 0x37,
      0x61, 0x9a, 0x2f, 0xc8, 0x1a, 0x08, 0x00, 0x00,
      0x00, 0x09, 0x01, 0x02, 0x1a, 0x06, 0x00, 0x00,
      0x01, 0x37]"

text \<open>
  A table whose slots 0, 1 and 255 are taken, with \<^verbatim>\<open>nextid\<close> at 255, and a table whose
  slots are all taken.
\<close>

definition ex_server_wrap :: server where
  "ex_server_wrap =
     ex_server\<lparr>requests := (replicate 256 ex_free)
                  [0 := ex_forwarded, 1 := ex_forwarded, 255 := ex_forwarded],
               nextid := 255\<rparr>"

definition ex_server_full :: server where
  "ex_server_full = ex_server\<lparr>requests := replicate 256 ex_forwarded, nextid := 17\<rparr>"

text \<open>
  A cold start of \<^verbatim>\<open>tlsconnect\<close>: the times at which the loop reads the clock, with
  the attempt that follows failing seven times and succeeding the eighth time, and the time
  at the end.
\<close>

definition ex_attempts :: "(int \<times> bool) list" where
  "ex_attempts = [(200000, False), (200001, False), (200011, False), (200022, False),
                  (200044, False), (200088, False), (200176, False), (200352, True)]"

definition ex_done :: timeval where
  "ex_done = \<lparr>tv_sec = 200953, tv_usec = 0\<rparr>"

section \<open>Properties\<close>

lemma length_bytes32: "length (bytes32 w) = 4"
  by (simp add: bytes32_def)

lemma length_md5: "length (md5 m) = 16"
  by (simp add: md5_def Let_def length_bytes32 split: prod.splits)

lemma length_hmac_md5: "length (hmac_md5 k m) = 16"
  by (simp add: hmac_md5_def Let_def length_md5)

lemma md5_empty:
  "md5 [] = [0xd4, 0x1d, 0x8c, 0xd9, 0x8f, 0x00, 0xb2, 0x04,
             0xe9, 0x80, 0x09, 0x98, 0xec, 0xf8, 0x42, 0x7e]"
  by code_simp

lemma md5_abc:
  "md5 [0x61, 0x62, 0x63] = [0x90, 0x01, 0x50, 0x98, 0x3c, 0xd2, 0x4f, 0xb0,
                             0xd6, 0x96, 0x3f, 0x7d, 0x28, 0xe1, 0x7f, 0x72]"
  by code_simp

subsection \<open>User-Password round trip\<close>

lemma map2_xor_cancel:
  "length h = length p \<Longrightarrow> map2 (XOR) h (map2 (XOR) h p) = (p :: u8 list)"
  by (induction h p rule: list_induct2) (auto simp: xor.assoc [symmetric])

lemma pwdencrypt_16:
  assumes "length p = 16"
  shows "pwdencrypt p 16 s a below = Ret (Some (map2 (XOR) (md5 (s @ a)) p))"
  using assms
  by (simp add: pwdencrypt_def pwdencrypt_loop.simps [of p 16 s below a 0] Let_def length_md5)

lemma pwddecrypt_16:
  assumes "length c = 16"
  shows "pwddecrypt c 16 s a = Ret (Some (map2 (XOR) (md5 (s @ a)) c))"
  using assms
  by (simp add: pwddecrypt_def pwddecrypt_loop.simps [of c 16 s a 0] Let_def length_md5)

text \<open>With a single block the pointer that went astray is never read.\<close>

lemma pwd_roundtrip_16:
  assumes "length p = 16"
  shows "pwd_roundtrip p s a below = Ret (Some p)"
  using assms
  by (simp add: pwd_roundtrip_def pwdencrypt_16 pwddecrypt_16 length_md5 map2_xor_cancel)

text \<open>
  With two blocks the second block is encrypted under the digest of the secret and the 16
  bytes below \<^verbatim>\<open>out\<close>, and decrypted under the digest of the secret and the first
  ciphertext block.
\<close>

lemma pwdencrypt_32:
  assumes "length p = 32"
  shows "pwdencrypt p 32 s a below =
         Ret (Some (map2 (XOR) (md5 (s @ a)) (take 16 p) @
                    map2 (XOR) (md5 (s @ below)) (drop 16 p)))"
  using assms
  by (simp add: pwdencrypt_def pwdencrypt_loop.simps [of p 32 s below a 0]
        pwdencrypt_loop.simps [of p 32 s below below 16] Let_def length_md5)

lemma pwddecrypt_32:
  assumes "length c = 32"
  shows "pwddecrypt c 32 s a =
         Ret (Some (map2 (XOR) (md5 (s @ a)) (take 16 c) @
                    map2 (XOR) (md5 (s @ take 16 c)) (drop 16 c)))"
  using assms
  by (simp add: pwddecrypt_def pwddecrypt_loop.simps [of c 32 s a 0]
        pwddecrypt_loop.simps [of c 32 s "take 16 c" 16] Let_def length_md5)

text \<open>
  C1. The claim: for every secret, authenticator and plaintext of 16, 32, ..., 128 bytes,
  \<^verbatim>\<open>pwddecrypt\<close> inverts \<^verbatim>\<open>pwdencrypt\<close>, the encryption of every block after the first
  being keyed by the previous ciphertext block. The code does not do this: for the secret
  \<^verbatim>\<open>testing123\<close>, the authenticator \<^verbatim>\<open>00 01 .. 0f\<close> and the 32-byte plaintext
  \<^verbatim>\<open>correct horse battery staple\<close> (padded with four zero bytes), with zero bytes below
  \<^verbatim>\<open>out\<close>, decryption returns the first block and 16 other bytes.
\<close>

theorem pwdencrypt_roundtrip_32_broken:
  "pwd_roundtrip
     [0x63, 0x6f, 0x72, 0x72, 0x65, 0x63, 0x74, 0x20, 0x68, 0x6f, 0x72, 0x73, 0x65, 0x20, 0x62, 0x61,
      0x74, 0x74, 0x65, 0x72, 0x79, 0x20, 0x73, 0x74, 0x61, 0x70, 0x6c, 0x65, 0x00, 0x00, 0x00, 0x00]
     [0x74, 0x65, 0x73, 0x74, 0x69, 0x6e, 0x67, 0x31, 0x32, 0x33]
     [0x00, 0x01, 0x02, 0x03, 0x04, 0x05, 0x06, 0x07, 0x08, 0x09, 0x0a, 0x0b, 0x0c, 0x0d, 0x0e, 0x0f]
     [0, 0, 0, 0, 0, 0, 0, 0, 0, 0, 0, 0, 0, 0, 0, 0]
   = Ret (Some
     [0x63, 0x6f, 0x72, 0x72, 0x65, 0x63, 0x74, 0x20, 0x68, 0x6f, 0x72, 0x73, 0x65, 0x20, 0x62, 0x61,
      0xc2, 0x08, 0xa2, 0x3d, 0x8d, 0x2e, 0xb4, 0x80, 0xfc, 0xdd, 0xf0, 0xa6, 0x97, 0x46, 0xcd, 0x19])"
  by code_simp

subsection \<open>Buffers and attributes\<close>

lemma nth_write_at_lt: "i < off \<Longrightarrow> off \<le> length b \<Longrightarrow> write_at b off bs ! i = b ! i"
  by (simp add: write_at_def nth_append)

lemma length_write_at: "off + length bs \<le> length b \<Longrightarrow> length (write_at b off bs) = length b"
  by (simp add: write_at_def)

lemma write_at_write_at:
  "a + length x \<le> length b \<Longrightarrow> length y = length x \<Longrightarrow>
   write_at (write_at b a x) a y = write_at b a y"
  by (simp add: write_at_def)

lemma write_at_bytes_at: "a + n \<le> length b \<Longrightarrow> write_at b a (bytes_at b a n) = b"
proof -
  assume h: "a + n \<le> length b"
  have "take a b @ take n (drop a b) @ drop (a + n) b = b"
    by (metis append_take_drop_id drop_drop add.commute)
  with h show ?thesis by (simp add: write_at_def bytes_at_def)
qed

lemma bytes_at_write_at:
  "a + length x \<le> length b \<Longrightarrow> bytes_at (write_at b a x) a (length x) = x"
  by (simp add: write_at_def bytes_at_def)

lemma length_bytes_at: "a + n \<le> length b \<Longrightarrow> length (bytes_at b a n) = n"
  by (simp add: bytes_at_def)

lemma bytes_at_eqI:
  assumes "length x = length y" "\<forall>i<off + n. x ! i = y ! i" "off + n \<le> length x"
  shows "bytes_at x off n = bytes_at y off n"
  using assms by (auto simp: bytes_at_def intro!: nth_equalityI)

text \<open>
  An attribute that \<^verbatim>\<open>attrget\<close> finds lies at or behind the start of the search, inside
  the buffer, with more than one byte of the given length left; \<^verbatim>\<open>attrvalidate\<close> reads
  nothing outside a buffer that holds the length it is given.
\<close>

lemma attrget_ge: "attrget b a len ty = Ret (Some r) \<Longrightarrow> a \<le> r"
proof (induction b a len ty rule: attrget.induct)
  case (1 b attrs len ty)
  show ?case
  proof (cases "1 < len \<and> \<not> length b \<le> attrs \<and> ATTRTYPE b attrs \<noteq> ty \<and>
                \<not> length b \<le> attrs + 1 \<and> ATTRLEN b attrs \<noteq> 0")
    case True
    then have "attrget b attrs len ty =
               attrget b (attrs + ATTRLEN b attrs) (len - int (ATTRLEN b attrs)) ty"
      by (subst attrget.simps) simp
    with "1.prems" have "attrget b (attrs + ATTRLEN b attrs) (len - int (ATTRLEN b attrs)) ty = Ret (Some r)"
      by simp
    with True "1.IH" have "attrs + ATTRLEN b attrs \<le> r" by simp
    then show ?thesis by simp
  next
    case False
    with "1.prems" show ?thesis
      by (subst (asm) attrget.simps) (auto split: if_splits)
  qed
qed

lemma attrget_Some:
  "attrget b a len ty = Ret (Some r) \<Longrightarrow>
   a \<le> r \<and> 1 < len - (int r - int a) \<and> r < length b \<and> ATTRTYPE b r = ty"
proof (induction b a len ty rule: attrget.induct)
  case (1 b attrs len ty)
  show ?case
  proof (cases "1 < len \<and> \<not> length b \<le> attrs \<and> ATTRTYPE b attrs \<noteq> ty \<and>
                \<not> length b \<le> attrs + 1 \<and> ATTRLEN b attrs \<noteq> 0")
    case True
    then have "attrget b attrs len ty =
               attrget b (attrs + ATTRLEN b attrs) (len - int (ATTRLEN b attrs)) ty"
      by (subst attrget.simps) simp
    with "1.prems" have "attrget b (attrs + ATTRLEN b attrs) (len - int (ATTRLEN b attrs)) ty = Ret (Some r)"
      by simp
    with True "1.IH" have "attrs + ATTRLEN b attrs \<le> r \<and>
        1 < len - int (ATTRLEN b attrs) - (int r - int (attrs + ATTRLEN b attrs)) \<and>
        r < length b \<and> ATTRTYPE b r = ty" by simp
    then show ?thesis by auto
  next
    case False
    with "1.prems" show ?thesis
      by (subst (asm) attrget.simps) (auto split: if_splits)
  qed
qed

lemma attrvalidate_defined:
  "int attrs + len \<le> int (length b) \<Longrightarrow>
   attrvalidate b attrs len = Ret True \<or> attrvalidate b attrs len = Ret False"
proof (induction b attrs len rule: attrvalidate.induct)
  case (1 b attrs len)
  show ?case
  proof (cases "1 < len \<and> \<not> ATTRLEN b attrs < 2 \<and> \<not> len - int (ATTRLEN b attrs) < 0")
    case True
    with "1.prems" have inb: "\<not> length b \<le> attrs + 1" by auto
    with True have eq: "attrvalidate b attrs len =
        attrvalidate b (attrs + ATTRLEN b attrs) (len - int (ATTRLEN b attrs))"
      by (subst attrvalidate.simps) simp
    from "1.prems" have "int (attrs + ATTRLEN b attrs) + (len - int (ATTRLEN b attrs)) \<le> int (length b)"
      by simp
    from "1.IH" [OF _ inb _ _ this] True show ?thesis unfolding eq by simp
  next
    case False
    with "1.prems" show ?thesis
      by (subst attrvalidate.simps, subst attrvalidate.simps) auto
  qed
qed

subsection \<open>Message-Authenticator\<close>

text \<open>
  \<^verbatim>\<open>checkmessageauth\<close> leaves the buffer as it found it, and accepts what
  \<^verbatim>\<open>createmessageauth\<close> wrote with the same secret: the 16 bytes are the HMAC-MD5 of the
  packet with these bytes zeroed. (That a packet changed in one bit elsewhere is rejected
  is a statement about collisions of HMAC-MD5 and is not settled here.)
\<close>

lemma createmessageauth_nth:
  assumes "createmessageauth rad (Some a) sec = Ret (ok, rad')" "i < a"
  shows "rad' ! i = rad ! i \<and> length rad' = length rad"
  using assms
  by (auto simp: createmessageauth_def Let_def nth_write_at_lt length_write_at length_hmac_md5
      split: if_splits)

lemma checkmessageauth_restores:
  assumes "checkmessageauth rad a sec = Ret (ok, rad')"
  shows "rad' = rad"
proof -
  from assms have l: "a + 16 \<le> length rad"
    by (auto simp: checkmessageauth_def split: if_splits)
  have "write_at (write_at rad a (replicate 16 0)) a (bytes_at rad a 16) = rad"
    using l by (simp add: write_at_write_at length_bytes_at write_at_bytes_at)
  with assms show ?thesis
    by (auto simp: checkmessageauth_def Let_def split: if_splits)
qed

lemma createmessageauth_then_check:
  assumes "createmessageauth rad (Some a) sec = Ret (True, rad')"
  shows "checkmessageauth rad' a sec = Ret (True, rad')"
    and "bytes_at rad' a 16 =
         hmac_md5 sec (take (RADLEN (write_at rad' a (replicate 16 0)))
                            (write_at rad' a (replicate 16 0)))"
proof -
  let ?z = "write_at rad a (replicate 16 0)"
  let ?h = "hmac_md5 sec (take (RADLEN ?z) ?z)"
  from assms have l: "a + 16 \<le> length rad" and r: "\<not> (length ?z < 4 \<or> length ?z < RADLEN ?z)"
    and e: "rad' = write_at ?z a ?h"
    by (auto simp: createmessageauth_def Let_def split: if_splits)
  have lz: "length ?z = length rad" using l by (simp add: length_write_at)
  have lr: "length rad' = length rad" using e l lz by (simp add: length_write_at length_hmac_md5)
  have z: "write_at rad' a (replicate 16 0) = ?z"
    using e l lz by (simp add: write_at_write_at length_hmac_md5)
  have au: "bytes_at rad' a 16 = ?h"
    using e l lz bytes_at_write_at [of a ?h ?z] by (simp add: length_hmac_md5)
  have wb: "write_at ?z a ?h = rad'" using e by simp
  show "bytes_at rad' a 16 =
         hmac_md5 sec (take (RADLEN (write_at rad' a (replicate 16 0)))
                            (write_at rad' a (replicate 16 0)))"
    using au z by simp
  show "checkmessageauth rad' a sec = Ret (True, rad')"
    using l lr r z au wb
    by (simp add: checkmessageauth_def Let_def length_hmac_md5)
qed

lemma createmessageauth_ok:
  assumes "a + 16 \<le> length rad"
    and "RADLEN (write_at rad a (replicate 16 0)) \<le> length rad" and "4 \<le> length rad"
  shows "\<exists>rad'. createmessageauth rad (Some a) sec = Ret (True, rad')"
  using assms by (simp add: createmessageauth_def Let_def length_write_at length_hmac_md5)

subsection \<open>The request table\<close>

lemma first_free_spec:
  "i \<le> first_free rqs i n \<and>
   (\<forall>j. i \<le> j \<and> j < first_free rqs i n \<and> j < n \<longrightarrow> buf (rqs ! j) \<noteq> None) \<and>
   (first_free rqs i n < n \<longrightarrow> buf (rqs ! first_free rqs i n) = None) \<and>
   (i \<le> n \<longrightarrow> first_free rqs i n \<le> n)"
proof (induction rqs i n rule: first_free.induct)
  case (1 rqs i n)
  show ?case
  proof (cases "i < n \<and> buf (rqs ! i) \<noteq> None")
    case True
    then have eq: "first_free rqs i n = first_free rqs (Suc i) n"
      by (subst first_free.simps) auto
    from True 1 have IH:
      "Suc i \<le> first_free rqs (Suc i) n"
      "\<forall>j. Suc i \<le> j \<and> j < first_free rqs (Suc i) n \<and> j < n \<longrightarrow> buf (rqs ! j) \<noteq> None"
      "first_free rqs (Suc i) n < n \<longrightarrow> buf (rqs ! first_free rqs (Suc i) n) = None"
      "Suc i \<le> n \<longrightarrow> first_free rqs (Suc i) n \<le> n"
      by auto
    have "\<forall>j. i \<le> j \<and> j < first_free rqs (Suc i) n \<and> j < n \<longrightarrow> buf (rqs ! j) \<noteq> None"
    proof (intro allI impI)
      fix j assume j: "i \<le> j \<and> j < first_free rqs (Suc i) n \<and> j < n"
      show "buf (rqs ! j) \<noteq> None"
      proof (cases "j = i")
        case True
        with \<open>i < n \<and> buf (rqs ! i) \<noteq> None\<close> show ?thesis by simp
      next
        case False
        with j IH(2) show ?thesis by auto
      qed
    qed
    with IH True show ?thesis unfolding eq by auto
  next
    case False
    then have "first_free rqs i n = i"
      by (subst first_free.simps) auto
    with False show ?thesis by auto
  qed
qed

lemma sendrq_NoRoom_cond:
  "(\<exists>to'. sendrq to rq = (NoRoom, to')) \<longleftrightarrow>
   (first_free (requests to) (nextid to) MAX_REQUESTS = MAX_REQUESTS \<and>
    first_free (requests to) 0 (nextid to) = nextid to)"
  by (auto simp: sendrq_def Let_def
      split: option.splits outcome.splits if_splits prod.splits bool.splits)

lemma sendrq_Inserted:
  assumes "sendrq to rq = (Inserted i, to')"
  shows "\<exists>b attr b2.
           buf rq = Some b \<and> 20 \<le> length b \<and> i < length (requests to) \<and>
           attrget (b[1 := word_of_nat i]) 20 (int (RADLEN (b[1 := word_of_nat i])) - 20)
             RAD_Attr_Message_Authenticator = Ret attr \<and>
           createmessageauth (b[1 := word_of_nat i]) (map_option ATTRVAL attr) (secret (conf to))
             = Ret (True, b2) \<and>
           to' = to\<lparr>requests := (requests to)[i := rq\<lparr>buf := Some b2\<rparr>],
                     nextid := i + 1, newrq := True\<rparr> \<and>
           i = (if first_free (requests to) (nextid to) MAX_REQUESTS = MAX_REQUESTS
                then first_free (requests to) 0 (nextid to)
                else first_free (requests to) (nextid to) MAX_REQUESTS) \<and>
           \<not> (first_free (requests to) (nextid to) MAX_REQUESTS = MAX_REQUESTS \<and>
              i = nextid to)"
  using assms
  by (auto simp: sendrq_def Let_def
      split: option.splits outcome.splits if_splits prod.splits bool.splits)

lemma sendrq_byte1:
  assumes "createmessageauth b1 (map_option ATTRVAL attr) sec = Ret (True, b2)"
    and "attrget b1 20 len ty = Ret attr" and "20 \<le> length b1"
  shows "b2 ! 1 = b1 ! 1"
proof (cases attr)
  case None
  with assms show ?thesis by (simp add: createmessageauth_def)
next
  case (Some a)
  with assms(2) have "20 \<le> a" by (auto dest: attrget_ge)
  then have "1 < ATTRVAL a" by (simp add: ATTRVAL_def)
  with assms(1) Some show ?thesis
    using createmessageauth_nth [of b1 "ATTRVAL a" sec True b2 1] by simp
qed

text \<open>
  C3. For a table of 256 slots with \<^verbatim>\<open>nextid\<close> at most 256: when \<^verbatim>\<open>sendrq\<close> inserts at
  \<open>i\<close>, slot \<open>i\<close> was free and is the first free slot in the order \<^verbatim>\<open>nextid\<close>, ..., 255,
  0, ..., \<^verbatim>\<open>nextid\<close> - 1; the slot then holds the request with byte 1 of its packet set to
  \<open>i\<close>, \<^verbatim>\<open>nextid\<close> is \<open>i + 1\<close>, and no other slot has changed. When all 256 slots are
  occupied the request is dropped for lack of room and the server is unchanged, and the
  request is dropped for lack of room only then.
\<close>

theorem sendrq_free_slot:
  assumes len: "length (requests to) = MAX_REQUESTS" and nid: "nextid to \<le> MAX_REQUESTS"
  shows
   "(\<forall>i to'. sendrq to rq = (Inserted i, to') \<longrightarrow>
        i < MAX_REQUESTS \<and> buf (requests to ! i) = None \<and>
        ((nextid to \<le> i \<and> (\<forall>j. nextid to \<le> j \<and> j < i \<longrightarrow> buf (requests to ! j) \<noteq> None)) \<or>
         (i < nextid to \<and>
          (\<forall>j. (nextid to \<le> j \<and> j < MAX_REQUESTS) \<or> j < i \<longrightarrow> buf (requests to ! j) \<noteq> None))) \<and>
        (\<exists>b'. requests to' ! i = rq\<lparr>buf := Some b'\<rparr> \<and> b' ! 1 = word_of_nat i) \<and>
        nextid to' = i + 1 \<and>
        (\<forall>j. j \<noteq> i \<longrightarrow> requests to' ! j = requests to ! j)) \<and>
    ((\<forall>j<MAX_REQUESTS. buf (requests to ! j) \<noteq> None) \<longrightarrow> sendrq to rq = (NoRoom, to)) \<and>
    (\<forall>to'. sendrq to rq = (NoRoom, to') \<longrightarrow>
        to' = to \<and> (\<forall>j<MAX_REQUESTS. buf (requests to ! j) \<noteq> None))"
proof -
  let ?i0 = "first_free (requests to) (nextid to) MAX_REQUESTS"
  let ?i1 = "first_free (requests to) 0 (nextid to)"
  note s0 = first_free_spec [of "nextid to" "requests to" MAX_REQUESTS]
  note s1 = first_free_spec [of 0 "requests to" "nextid to"]
  have room_to: "\<And>to'. sendrq to rq = (NoRoom, to') \<Longrightarrow> to' = to"
    by (auto simp: sendrq_def Let_def
        split: option.splits outcome.splits if_splits prod.splits bool.splits)
  have full_iff: "(?i0 = MAX_REQUESTS \<and> ?i1 = nextid to) \<longleftrightarrow>
                  (\<forall>j<MAX_REQUESTS. buf (requests to ! j) \<noteq> None)"
  proof
    assume a: "?i0 = MAX_REQUESTS \<and> ?i1 = nextid to"
    show "\<forall>j<MAX_REQUESTS. buf (requests to ! j) \<noteq> None"
    proof (intro allI impI)
      fix j assume "j < MAX_REQUESTS"
      show "buf (requests to ! j) \<noteq> None"
      proof (cases "j < nextid to")
        case True
        with s1 a show ?thesis by auto
      next
        case False
        with s0 a \<open>j < MAX_REQUESTS\<close> show ?thesis by auto
      qed
    qed
  next
    assume all: "\<forall>j<MAX_REQUESTS. buf (requests to ! j) \<noteq> None"
    have "\<not> ?i0 < MAX_REQUESTS" using s0 all by auto
    moreover have "?i0 \<le> MAX_REQUESTS" using s0 nid by auto
    ultimately have e0: "?i0 = MAX_REQUESTS" by simp
    have "\<not> ?i1 < nextid to" using s1 all nid by auto
    moreover have "?i1 \<le> nextid to" using s1 by auto
    ultimately have "?i1 = nextid to" by simp
    with e0 show "?i0 = MAX_REQUESTS \<and> ?i1 = nextid to" by simp
  qed
  have full: "(\<forall>j<MAX_REQUESTS. buf (requests to ! j) \<noteq> None) \<longrightarrow> sendrq to rq = (NoRoom, to)"
    using full_iff sendrq_NoRoom_cond [of to rq] room_to by auto
  have noroom: "\<forall>to'. sendrq to rq = (NoRoom, to') \<longrightarrow>
        to' = to \<and> (\<forall>j<MAX_REQUESTS. buf (requests to ! j) \<noteq> None)"
    using full_iff sendrq_NoRoom_cond [of to rq] room_to by blast
  have inserted: "\<forall>i to'. sendrq to rq = (Inserted i, to') \<longrightarrow>
        i < MAX_REQUESTS \<and> buf (requests to ! i) = None \<and>
        ((nextid to \<le> i \<and> (\<forall>j. nextid to \<le> j \<and> j < i \<longrightarrow> buf (requests to ! j) \<noteq> None)) \<or>
         (i < nextid to \<and>
          (\<forall>j. (nextid to \<le> j \<and> j < MAX_REQUESTS) \<or> j < i \<longrightarrow> buf (requests to ! j) \<noteq> None))) \<and>
        (\<exists>b'. requests to' ! i = rq\<lparr>buf := Some b'\<rparr> \<and> b' ! 1 = word_of_nat i) \<and>
        nextid to' = i + 1 \<and>
        (\<forall>j. j \<noteq> i \<longrightarrow> requests to' ! j = requests to ! j)"
  proof (intro allI impI conjI)
  fix i to' assume ins: "sendrq to rq = (Inserted i, to')"
  from sendrq_Inserted [OF ins] obtain b attr b2 where
    b: "buf rq = Some b" "20 \<le> length b" and il: "i < length (requests to)"
    and ag: "attrget (b[1 := word_of_nat i]) 20 (int (RADLEN (b[1 := word_of_nat i])) - 20)
               RAD_Attr_Message_Authenticator = Ret attr"
    and cm: "createmessageauth (b[1 := word_of_nat i]) (map_option ATTRVAL attr) (secret (conf to))
               = Ret (True, b2)"
    and to': "to' = to\<lparr>requests := (requests to)[i := rq\<lparr>buf := Some b2\<rparr>],
                        nextid := i + 1, newrq := True\<rparr>"
    and i: "i = (if ?i0 = MAX_REQUESTS then ?i1 else ?i0)"
    and nofull: "\<not> (?i0 = MAX_REQUESTS \<and> i = nextid to)"
    by blast
  from il len show "i < MAX_REQUESTS" by simp
  have i0le: "?i0 \<le> MAX_REQUESTS" using s0 nid by auto
  have i1le: "?i1 \<le> nextid to" using s1 by auto
  show "buf (requests to ! i) = None"
  proof (cases "?i0 = MAX_REQUESTS")
    case True
    with i nofull i1le have "?i1 < nextid to" "i = ?i1" by auto
    with s1 show ?thesis by auto
  next
    case False
    with i i0le have "?i0 < MAX_REQUESTS" "i = ?i0" by auto
    with s0 show ?thesis by auto
  qed
  show "(nextid to \<le> i \<and> (\<forall>j. nextid to \<le> j \<and> j < i \<longrightarrow> buf (requests to ! j) \<noteq> None)) \<or>
        (i < nextid to \<and>
         (\<forall>j. (nextid to \<le> j \<and> j < MAX_REQUESTS) \<or> j < i \<longrightarrow> buf (requests to ! j) \<noteq> None))"
  proof (cases "?i0 = MAX_REQUESTS")
    case True
    with i nofull i1le have lt: "?i1 < nextid to" and ii: "i = ?i1" by auto
    have "\<forall>j. nextid to \<le> j \<and> j < MAX_REQUESTS \<longrightarrow> buf (requests to ! j) \<noteq> None"
      using s0 True by auto
    moreover have "\<forall>j. j < i \<longrightarrow> buf (requests to ! j) \<noteq> None"
      using s1 ii lt by auto
    ultimately show ?thesis using lt ii by auto
  next
    case False
    with i i0le have lt: "?i0 < MAX_REQUESTS" and ii: "i = ?i0" by auto
    have "nextid to \<le> i" using s0 ii by auto
    moreover have "\<forall>j. nextid to \<le> j \<and> j < i \<longrightarrow> buf (requests to ! j) \<noteq> None"
      using s0 ii lt by auto
    ultimately show ?thesis by auto
  qed
  have "b2 ! 1 = (b[1 := word_of_nat i]) ! 1"
    using sendrq_byte1 [OF cm ag] b by simp
  with b have b21: "b2 ! 1 = word_of_nat i" by simp
  note b21
  moreover from to' il have "requests to' ! i = rq\<lparr>buf := Some b2\<rparr>" by simp
  ultimately show "\<exists>b'. requests to' ! i = rq\<lparr>buf := Some b'\<rparr> \<and> b' ! 1 = word_of_nat i"
    by blast
  from to' show "nextid to' = i + 1" by simp
  fix j assume "j \<noteq> i"
  with to' show "requests to' ! j = requests to ! j" by simp
  qed
  from inserted full noroom show ?thesis by (intro conjI)
qed

text \<open>
  On the table with slots 0, 1 and 255 taken and \<^verbatim>\<open>nextid\<close> = 255 the request goes to
  slot 2; on the full table it is dropped.
\<close>

lemma ex_sendrq_wrap: "fst (sendrq ex_server_wrap ex_request) = Inserted 2"
  by code_simp

theorem sendrq_free_slot_witness:
  "length (requests ex_server_wrap) = MAX_REQUESTS \<and> nextid ex_server_wrap \<le> MAX_REQUESTS \<and>
   fst (sendrq ex_server_wrap ex_request) = Inserted 2 \<and>
   buf (requests ex_server_wrap ! 2) = None \<and>
   nextid (snd (sendrq ex_server_wrap ex_request)) = 3 \<and>
   length (requests ex_server_full) = MAX_REQUESTS \<and> nextid ex_server_full \<le> MAX_REQUESTS \<and>
   sendrq ex_server_full ex_request = (NoRoom, ex_server_full)"
proof -
  have w: "length (requests ex_server_wrap) = MAX_REQUESTS" "nextid ex_server_wrap \<le> MAX_REQUESTS"
    by (simp_all add: ex_server_wrap_def ex_server_def MAX_REQUESTS_def)
  have f: "length (requests ex_server_full) = MAX_REQUESTS" "nextid ex_server_full \<le> MAX_REQUESTS"
    by (simp_all add: ex_server_full_def ex_server_def MAX_REQUESTS_def)
  have e: "sendrq ex_server_wrap ex_request = (Inserted 2, snd (sendrq ex_server_wrap ex_request))"
    using ex_sendrq_wrap by (simp add: prod_eq_iff)
  have full: "\<forall>j<MAX_REQUESTS. buf (requests ex_server_full ! j) \<noteq> None"
    by (simp add: ex_server_full_def ex_server_def ex_forwarded_def ex_free_def MAX_REQUESTS_def)
  note thw = sendrq_free_slot [OF w, of ex_request]
  from thw have "\<forall>i to'. sendrq ex_server_wrap ex_request = (Inserted i, to') \<longrightarrow>
        buf (requests ex_server_wrap ! i) = None \<and> nextid to' = i + 1"
    by blast
  with e have a: "buf (requests ex_server_wrap ! 2) = None \<and>
    nextid (snd (sendrq ex_server_wrap ex_request)) = 2 + 1"
    by blast
  note thf = sendrq_free_slot [OF f, of ex_request]
  from thf full
  have b: "sendrq ex_server_full ex_request = (NoRoom, ex_server_full)" by blast
  from a b w f ex_sendrq_wrap show ?thesis by simp
qed

subsection \<open>Requests from clients\<close>

lemma ex_proxy_sel:
  "realms (ex_proxy rs srv) = rs" "srvconfs (ex_proxy rs srv) = [ex_srvconf]"
  "client_heap (ex_proxy rs srv) = [\<lparr>cconf = ex_clconf, creplyq = 0\<rparr>]"
  "server_heap (ex_proxy rs srv) = [srv]"
  "replyq_heap (ex_proxy rs srv) = [\<lparr>replies = [], qsize = 256\<rparr>]"
  by (simp_all add: ex_proxy_def)

text \<open>
  C2. The claim: an Access-Request whose realm has no server is answered with an
  Access-Reject (with the realm's Reply-Message), and the proxy does not crash. The code
  does not get that far: for the realm without a server, \<^verbatim>\<open>realm->srvconf\<close> is null and
  \<^verbatim>\<open>to = realm->srvconf->servers\<close> reads through it, before the test \<^verbatim>\<open>if (!to)\<close> that
  leads to \<^verbatim>\<open>respondreject\<close>. The request of \<^verbatim>\<open>alice\<close>, with the only realm configured
  without a server and with the message \<^verbatim>\<open>denied\<close>, ends in that fault; nothing is queued
  for the client.
\<close>

theorem radsrv_realm_without_server:
  "radsrv (ex_proxy [ex_realm_noserver] ex_server) ex_request ex_env
   = (SrvFault, ex_proxy [ex_realm_noserver] ex_server)"
  by (simp add: radsrv_def radsrv_route_def radsrv_lookup_def ex_proxy_def ex_realm_noserver_def
      ex_request_def ex_free_def ex_access_request_def Let_def RADLEN_def
      RAD_Access_Request_def RAD_Status_Server_def RAD_Attr_User_Name_def
      attrvalidate.simps attrget.simps ATTRLEN_def ATTRTYPE_def ATTRVAL_def ATTRVALLEN_def
      bytes_at_def)

text \<open>
  \<^verbatim>\<open>rqinqueue\<close> says whether some slot of the table is occupied by a request of the
  client with the identifier.
\<close>

lemma rqinqueue_loop_finds:
  "i \<le> j \<Longrightarrow> j < MAX_REQUESTS \<Longrightarrow>
   buf (rqs ! j) \<noteq> None \<and> origid (rqs ! j) = ident \<and> rqfrom (rqs ! j) = fr \<Longrightarrow>
   rqinqueue_loop rqs fr ident i < MAX_REQUESTS"
proof (induction rqs fr ident i rule: rqinqueue_loop.induct)
  case (1 rqs fr ident i)
  show ?case
  proof (cases "buf (rqs ! i) \<noteq> None \<and> origid (rqs ! i) = ident \<and> rqfrom (rqs ! i) = fr")
    case True
    with "1.prems" show ?thesis by (subst rqinqueue_loop.simps) auto
  next
    case False
    with "1.prems" have ne: "i \<noteq> j" by auto
    with "1.prems" have "Suc i \<le> j" "i < MAX_REQUESTS" by auto
    with "1.IH" [OF _ False] "1.prems" False show ?thesis
      by (subst rqinqueue_loop.simps) auto
  qed
qed

lemma rqinqueue_loop_found:
  "rqinqueue_loop rqs fr ident i < MAX_REQUESTS \<Longrightarrow>
   \<exists>j. i \<le> j \<and> j < MAX_REQUESTS \<and>
       buf (rqs ! j) \<noteq> None \<and> origid (rqs ! j) = ident \<and> rqfrom (rqs ! j) = fr"
proof (induction rqs fr ident i rule: rqinqueue_loop.induct)
  case (1 rqs fr ident i)
  show ?case
  proof (cases "i < MAX_REQUESTS")
    case True
    show ?thesis
    proof (cases "buf (rqs ! i) \<noteq> None \<and> origid (rqs ! i) = ident \<and> rqfrom (rqs ! i) = fr")
      case m: True
      with True show ?thesis by auto
    next
      case False
      with True "1.prems" have "rqinqueue_loop rqs fr ident (Suc i) < MAX_REQUESTS"
        by (subst (asm) rqinqueue_loop.simps) auto
      from "1.IH" [OF True False this] show ?thesis by (auto intro: Suc_leD)
    qed
  next
    case False
    with "1.prems" show ?thesis by (subst (asm) rqinqueue_loop.simps) auto
  qed
qed

lemma rqinqueue_iff:
  "rqinqueue to fr ident \<longleftrightarrow>
   (\<exists>j<MAX_REQUESTS. buf (requests to ! j) \<noteq> None \<and> origid (requests to ! j) = ident \<and>
                     rqfrom (requests to ! j) = fr)"
  unfolding rqinqueue_def
  using rqinqueue_loop_finds [of 0 _ "requests to" ident fr]
    rqinqueue_loop_found [of "requests to" fr ident 0]
  by auto

lemma radsrv_lookup_Routed:
  "radsrv_lookup P b len = Routed realm (Some t) \<Longrightarrow> t < length (server_heap P)"
  by (auto simp: radsrv_lookup_def Let_def
      split: outcome.splits option.splits if_splits)

lemma radsrv_held:
  assumes b: "buf rq = Some b" and wf: "20 \<le> length b" "RADLEN b = length b"
    and code: "b ! 0 = RAD_Access_Request"
    and tgt: "radsrv_lookup P b (int (RADLEN b) - 20) = Routed realm (Some t)"
    and held: "rqinqueue (server_heap P ! t) (rqfrom rq) (b ! 1)"
  shows "radsrv P rq env = (Ignored Duplicate, P) \<or> radsrv P rq env = (Ignored BadAttrs, P)"
proof -
  have "RADLEN b < 65536"
  proof -
    have "unat (b ! 2) < 2 ^ LENGTH(8)" "unat (b ! 3) < 2 ^ LENGTH(8)" by (rule unsigned_less)+
    then show ?thesis by (simp add: RADLEN_def)
  qed
  then have lt: "RADLEN b - 20 < 65536" by simp
  have "RADLEN b + 65536 - 20 = (RADLEN b - 20) + 65536" using wf by simp
  then have "(RADLEN b + 65536 - 20) mod 65536 = (RADLEN b - 20) mod 65536"
    by (simp only: mod_add_self2)
  with lt have "(RADLEN b + 65536 - 20) mod 65536 = RADLEN b - 20" by simp
  with wf have len: "int ((RADLEN b + 65536 - 20) mod 65536) = int (RADLEN b) - 20"
    by simp
  have "int 20 + (int (RADLEN b) - 20) \<le> int (length b)" using wf by simp
  from attrvalidate_defined [OF this]
  have av: "attrvalidate b 20 (int (RADLEN b) - 20) = Ret True \<or>
            attrvalidate b 20 (int (RADLEN b) - 20) = Ret False" by simp
  have rt: "radsrv_route P rq b (int (RADLEN b) - 20) = RouteIgnored Duplicate"
    using tgt held by (simp add: radsrv_route_def)
  from av show ?thesis
  proof
    assume "attrvalidate b 20 (int (RADLEN b) - 20) = Ret True"
    with b wf code rt len have "radsrv P rq env = (Ignored Duplicate, P)"
      by (simp add: radsrv_def Let_def RAD_Access_Request_def RAD_Status_Server_def)
    then show ?thesis by simp
  next
    assume "attrvalidate b 20 (int (RADLEN b) - 20) = Ret False"
    with b wf code len have "radsrv P rq env = (Ignored BadAttrs, P)"
      by (simp add: radsrv_def Let_def RAD_Access_Request_def RAD_Status_Server_def)
    then show ?thesis by simp
  qed
qed

lemma radsrv_forward_Inserted:
  assumes "radsrv_forward P rq ident b len t env = (Forwarded t' (Inserted i), P')"
  shows "\<exists>to' rq'. sendrq (server_heap P ! t) rq' = (Inserted i, to') \<and>
                   origid rq' = ident \<and> rqfrom rq' = rqfrom rq \<and>
                   P' = P\<lparr>server_heap := (server_heap P)[t := to']\<rparr>"
  using assms
  by (fastforce simp: radsrv_forward_def Let_def
      split: option.splits outcome.splits prod.splits)

lemma respond_not_Forwarded:
  "(case respondstatusserver P rq b of (r, P') \<Rightarrow> (Responded r, P')) \<noteq> (Forwarded t x, Q)"
  "(case respondreject P rq b m of (r, P') \<Rightarrow> (Responded r, P')) \<noteq> (Forwarded t x, Q)"
  by (auto split: prod.splits)

lemma radsrv_Forwarded:
  assumes "radsrv P rq env = (Forwarded t r, P')" "buf rq = Some b"
  shows "\<exists>b1 len realm t'.
           radsrv_route P rq b len = Routed realm (Some t') \<and>
           radsrv_forward P rq (b ! 1) b1 len t' env = (Forwarded t r, P')"
  using assms
  by (auto simp: radsrv_def Let_def respond_not_Forwarded
      split: option.splits outcome.splits if_splits bool.splits route.splits prod.splits)

lemma radsrv_forward_target:
  assumes "radsrv_forward P rq ident b len t env = (Forwarded t' r, P')"
  shows "t' = t"
  using assms
  by (auto simp: radsrv_forward_def Let_def
      split: option.splits outcome.splits prod.splits)

lemma radsrv_route_Routed:
  assumes "radsrv_route P rq b len = Routed realm (Some t)"
  shows "t < length (server_heap P)"
proof -
  from assms have "radsrv_lookup P b len = Routed realm (Some t)"
    by (auto simp: radsrv_route_def split: route.splits option.splits if_splits)
  then show ?thesis by (rule radsrv_lookup_Routed)
qed

lemma radsrv_inserted_held:
  assumes f: "radsrv P0 rq1 env1 = (Forwarded t (Inserted i), P)" and b1: "buf rq1 = Some b1"
    and len: "length (requests (server_heap P ! t)) = MAX_REQUESTS"
  shows "rqinqueue (server_heap P ! t) (rqfrom rq1) (b1 ! 1)"
proof -
  from radsrv_Forwarded [OF f b1] obtain b2 len realm t' where
    rt: "radsrv_route P0 rq1 b1 len = Routed realm (Some t')"
    and fw: "radsrv_forward P0 rq1 (b1 ! 1) b2 len t' env1 = (Forwarded t (Inserted i), P)"
    by blast
  from radsrv_forward_target [OF fw] have tt: "t = t'" .
  from radsrv_route_Routed [OF rt] tt have tl: "t < length (server_heap P0)" by simp
  from radsrv_forward_Inserted [OF fw] tt obtain to' rq' where
    sq: "sendrq (server_heap P0 ! t) rq' = (Inserted i, to')"
    and rq': "origid rq' = b1 ! 1" "rqfrom rq' = rqfrom rq1"
    and P: "P = P0\<lparr>server_heap := (server_heap P0)[t := to']\<rparr>"
    by auto
  from P tl have st: "server_heap P ! t = to'" by simp
  from sendrq_Inserted [OF sq] obtain bb where
    il: "i < length (requests (server_heap P0 ! t))"
    and to': "to' = (server_heap P0 ! t)\<lparr>requests := (requests (server_heap P0 ! t))
                       [i := rq'\<lparr>buf := Some bb\<rparr>], nextid := i + 1, newrq := True\<rparr>"
    by blast
  from to' il have e: "requests to' ! i = rq'\<lparr>buf := Some bb\<rparr>" by simp
  from to' il len st have "i < MAX_REQUESTS" by simp
  with e rq' st show ?thesis
    unfolding rqinqueue_iff by (intro exI [of _ i]) simp
qed

text \<open>
  C4. Take an Access-Request as \<^verbatim>\<open>radudpget\<close> returns it (at least 20 bytes, as long as
  its length field says) whose user name leads to the server \<open>t\<close>. If the table of \<open>t\<close>
  holds an occupied slot with the same client and the same original identifier, \<^verbatim>\<open>radsrv\<close>
  ignores the request and the proxy is as before: nothing is inserted, nothing is queued.
  In particular this is so when the proxy is in the state that \<^verbatim>\<open>radsrv\<close> left after it
  inserted a request of the same client with the same identifier into the table of \<open>t\<close>:
  of the two, one is forwarded.
\<close>

theorem radsrv_duplicate_dropped:
  assumes b: "buf rq = Some b" and wf: "20 \<le> length b" "RADLEN b = length b"
    and code: "b ! 0 = RAD_Access_Request"
    and tgt: "radsrv_lookup P b (int (RADLEN b) - 20) = Routed realm (Some t)"
  shows "((\<exists>i<MAX_REQUESTS. buf (requests (server_heap P ! t) ! i) \<noteq> None \<and>
                            rqfrom (requests (server_heap P ! t) ! i) = rqfrom rq \<and>
                            origid (requests (server_heap P ! t) ! i) = b ! 1) \<longrightarrow>
            (\<exists>reason. radsrv P rq env = (Ignored reason, P))) \<and>
         (\<forall>P0 rq1 env1 b1 i.
            radsrv P0 rq1 env1 = (Forwarded t (Inserted i), P) \<and> buf rq1 = Some b1 \<and>
            b1 ! 1 = b ! 1 \<and> rqfrom rq1 = rqfrom rq \<and>
            length (requests (server_heap P ! t)) = MAX_REQUESTS \<longrightarrow>
            (\<exists>reason. radsrv P rq env = (Ignored reason, P)))"
proof (intro conjI allI impI)
  assume "\<exists>i<MAX_REQUESTS. buf (requests (server_heap P ! t) ! i) \<noteq> None \<and>
                            rqfrom (requests (server_heap P ! t) ! i) = rqfrom rq \<and>
                            origid (requests (server_heap P ! t) ! i) = b ! 1"
  then have "rqinqueue (server_heap P ! t) (rqfrom rq) (b ! 1)"
    unfolding rqinqueue_iff by auto
  from radsrv_held [OF b wf code tgt this, of env]
  show "\<exists>reason. radsrv P rq env = (Ignored reason, P)" by auto
next
  fix P0 rq1 env1 b1 i
  assume a: "radsrv P0 rq1 env1 = (Forwarded t (Inserted i), P) \<and> buf rq1 = Some b1 \<and>
            b1 ! 1 = b ! 1 \<and> rqfrom rq1 = rqfrom rq \<and>
            length (requests (server_heap P ! t)) = MAX_REQUESTS"
  then have "rqinqueue (server_heap P ! t) (rqfrom rq1) (b1 ! 1)"
    by (intro radsrv_inserted_held [of P0 rq1 env1 t i P b1]) auto
  with a have "rqinqueue (server_heap P ! t) (rqfrom rq) (b ! 1)" by simp
  from radsrv_held [OF b wf code tgt this, of env]
  show "\<exists>reason. radsrv P rq env = (Ignored reason, P)" by auto
qed

text \<open>
  The request of \<^verbatim>\<open>alice\<close> is forwarded from the empty table, and ignored when it comes
  again.
\<close>

lemma ex_not_inqueue: "\<not> rqinqueue ex_server fr ident"
  unfolding rqinqueue_iff
  by (simp add: ex_server_def ex_free_def MAX_REQUESTS_def)

lemma ex_radsrv_forwards:
  "radsrv (ex_proxy [ex_realm] ex_server) ex_request ex_env
   = (Forwarded 0 (Inserted 0), ex_proxy [ex_realm] ex_server_forwarded)"
proof -
  have lk: "radsrv_lookup (ex_proxy [ex_realm] ex_server) ex_access_request 7
            = Routed (Some ex_realm) (Some 0)"
    by (simp add: radsrv_lookup_def attrget.simps ex_proxy_def ex_realm_def ex_srvconf_def
        ex_access_request_def Let_def ATTRLEN_def ATTRTYPE_def ATTRVAL_def ATTRVALLEN_def
        bytes_at_def RAD_Attr_User_Name_def)
  have rt: "radsrv_route (ex_proxy [ex_realm] ex_server) ex_request ex_access_request 7
            = Routed (Some ex_realm) (Some 0)"
    by (simp add: radsrv_route_def lk ex_proxy_sel ex_not_inqueue)
  have av: "attrvalidate ex_access_request 20 7 = Ret True"
    by (simp add: attrvalidate.simps ex_access_request_def ATTRLEN_def)
  have ma: "attrget ex_access_request 20 7 RAD_Attr_Message_Authenticator = Ret None"
    by (simp add: attrget.simps ex_access_request_def ATTRLEN_def ATTRTYPE_def
        RAD_Attr_Message_Authenticator_def)
  have fw: "radsrv_forward (ex_proxy [ex_realm] ex_server) ex_request 0x2a ex_access_request 7 0 ex_env
            = (Forwarded 0 (Inserted 0), ex_proxy [ex_realm] ex_server_forwarded)"
    by (simp add: radsrv_forward_def radsrv_pwd_def sendrq_def createmessageauth_def
        first_free.simps attrget.simps
        ex_proxy_def ex_server_def ex_server_forwarded_def ex_forwarded_def
        ex_srvconf_def ex_request_def ex_free_def ex_access_request_def ex_env_def
        Let_def RADLEN_def ATTRLEN_def ATTRTYPE_def
        bytes_at_def write_at_def MAX_REQUESTS_def
        RAD_Attr_Message_Authenticator_def RAD_Attr_User_Password_def
        RAD_Attr_Tunnel_Password_def)
  have hd: "buf ex_request = Some ex_access_request" "length ex_access_request = 27"
    "ex_access_request ! 0 = 1" "ex_access_request ! Suc 0 = 0x2a"
    "RADLEN ex_access_request = 27"
    by (simp_all add: ex_request_def ex_free_def ex_access_request_def RADLEN_def)
  show ?thesis
    by (simp add: radsrv_def hd av rt ma fw Let_def RAD_Access_Request_def RAD_Status_Server_def)
qed

lemma ex_lookup:
  "radsrv_lookup (ex_proxy [ex_realm] ex_server_forwarded) ex_access_request 7
   = Routed (Some ex_realm) (Some 0)"
  by (simp add: radsrv_lookup_def attrget.simps ex_proxy_def ex_realm_def ex_srvconf_def
      ex_access_request_def Let_def ATTRLEN_def ATTRTYPE_def ATTRVAL_def ATTRVALLEN_def
      bytes_at_def RAD_Attr_User_Name_def)

theorem radsrv_duplicate_dropped_witness:
  "buf ex_request = Some ex_access_request \<and> 20 \<le> length ex_access_request \<and>
   RADLEN ex_access_request = length ex_access_request \<and>
   ex_access_request ! 0 = RAD_Access_Request \<and>
   radsrv_lookup (ex_proxy [ex_realm] ex_server_forwarded) ex_access_request
     (int (RADLEN ex_access_request) - 20) = Routed (Some ex_realm) (Some 0) \<and>
   radsrv (ex_proxy [ex_realm] ex_server) ex_request ex_env
     = (Forwarded 0 (Inserted 0), ex_proxy [ex_realm] ex_server_forwarded) \<and>
   (\<exists>reason. radsrv (ex_proxy [ex_realm] ex_server_forwarded) ex_request ex_env
     = (Ignored reason, ex_proxy [ex_realm] ex_server_forwarded))"
proof -
  let ?P = "ex_proxy [ex_realm] ex_server_forwarded"
  have b: "buf ex_request = Some ex_access_request"
    by (simp add: ex_request_def ex_free_def)
  have wf: "20 \<le> length ex_access_request" "RADLEN ex_access_request = length ex_access_request"
    by (simp_all add: ex_access_request_def RADLEN_def)
  have code: "ex_access_request ! 0 = RAD_Access_Request"
    by (simp add: ex_access_request_def RAD_Access_Request_def)
  have len: "int (RADLEN ex_access_request) - 20 = 7"
    by (simp add: ex_access_request_def RADLEN_def)
  have tgt: "radsrv_lookup ?P ex_access_request (int (RADLEN ex_access_request) - 20)
             = Routed (Some ex_realm) (Some 0)"
    unfolding len by (rule ex_lookup)
  have tl: "length (requests (server_heap ?P ! 0)) = MAX_REQUESTS"
    by (simp add: ex_proxy_sel ex_server_forwarded_def ex_server_def MAX_REQUESTS_def)
  note th = radsrv_duplicate_dropped [OF b wf code tgt, of ex_env]
  from th have "\<forall>P0 rq1 env1 b1 i.
            radsrv P0 rq1 env1 = (Forwarded 0 (Inserted i), ?P) \<and> buf rq1 = Some b1 \<and>
            b1 ! 1 = ex_access_request ! 1 \<and> rqfrom rq1 = rqfrom ex_request \<and>
            length (requests (server_heap ?P ! 0)) = MAX_REQUESTS \<longrightarrow>
            (\<exists>reason. radsrv ?P ex_request ex_env = (Ignored reason, ?P))"
    by (rule conjunct2)
  then have "radsrv (ex_proxy [ex_realm] ex_server) ex_request ex_env = (Forwarded 0 (Inserted 0), ?P) \<and>
            buf ex_request = Some ex_access_request \<and>
            ex_access_request ! 1 = ex_access_request ! 1 \<and> rqfrom ex_request = rqfrom ex_request \<and>
            length (requests (server_heap ?P ! 0)) = MAX_REQUESTS \<longrightarrow>
            (\<exists>reason. radsrv ?P ex_request ex_env = (Ignored reason, ?P))"
    by blast
  with ex_radsrv_forwards b tl
  have "\<exists>reason. radsrv ?P ex_request ex_env = (Ignored reason, ?P)" by simp
  with b wf code tgt ex_radsrv_forwards show ?thesis by simp
qed

subsection \<open>Re-encryption of MS-MPPE keys\<close>

text \<open>
  A re-encryption that returns has not changed the length of the buffer nor any byte in
  front of the key, and the key attribute was between 20 and 244 bytes long. With this the
  two scans over attributes that call it end.
\<close>

lemma msmppdecrypt_loop_frame:
  "msmppdecrypt_loop b text len shared offset plain = Ret (Some b') \<Longrightarrow>
   length b' = length b \<and> (\<forall>i<text. b' ! i = b ! i) \<and>
   (offset \<le> 240 \<and> offset mod 16 = 0 \<longrightarrow> len \<le> 240)"
proof (induction b "text" len shared offset plain rule: msmppdecrypt_loop.induct)
  case (1 b tx len shared offset plain)
  show ?case
  proof (cases "offset < len")
    case True
    let ?hash = "md5 (shared @ bytes_at b (tx + offset - 16) 16)"
    from True "1.prems" have ok: "length ?hash = 16" "\<not> (length b < tx + offset + 16 \<or> 255 < offset + 16)"
      and rec: "msmppdecrypt_loop b tx len shared (offset + 16)
                  (plain @ map2 (XOR) (bytes_at b (tx + offset) 16) ?hash) = Ret (Some b')"
      by (subst (asm) msmppdecrypt_loop.simps, auto simp: Let_def split: if_splits)+
    from "1.IH" [OF True refl _ _ rec] ok
    have IH: "length b' = length b \<and> (\<forall>i<tx. b' ! i = b ! i) \<and>
              (offset + 16 \<le> 240 \<and> (offset + 16) mod 16 = 0 \<longrightarrow> len \<le> 240)"
      by simp
    have "len \<le> 240" if "offset \<le> 240 \<and> offset mod 16 = 0"
    proof -
      from that obtain k where k: "offset = 16 * k"
        by (auto elim: dvdE simp: mod_eq_0_iff_dvd)
      from ok k have "k \<le> 14" by simp
      with k have "offset + 16 \<le> 240 \<and> (offset + 16) mod 16 = 0" by simp
      with IH show ?thesis by simp
    qed
    with IH show ?thesis by simp
  next
    case False
    with "1.prems" have "\<not> length b < tx + len" "b' = write_at b tx (take len plain)"
      by (subst (asm) msmppdecrypt_loop.simps, auto split: if_splits)+
    with False show ?thesis
      by (auto simp: length_write_at nth_write_at_lt)
  qed
qed

lemma msmppencrypt_loop_frame:
  "msmppencrypt_loop b text len shared offset = Ret (Some b') \<Longrightarrow>
   length b' = length b \<and> (\<forall>i<text. b' ! i = b ! i)"
proof (induction b "text" len shared offset rule: msmppencrypt_loop.induct)
  case (1 b tx len shared offset)
  show ?case
  proof (cases "offset < len")
    case True
    let ?hash = "md5 (shared @ bytes_at b (tx + offset - 16) 16)"
    let ?b1 = "write_at b (tx + offset) (map2 (XOR) (bytes_at b (tx + offset) 16) ?hash)"
    from True "1.prems" have ok: "length ?hash = 16" "\<not> length b < tx + offset + 16"
      "\<not> 256 \<le> offset + 16"
      and rec: "msmppencrypt_loop ?b1 tx len shared (offset + 16) = Ret (Some b')"
      by (subst (asm) msmppencrypt_loop.simps, auto simp: Let_def split: if_splits)+
    from "1.IH" [OF True refl _ _ _ rec] ok
    have IH: "length b' = length ?b1 \<and> (\<forall>i<tx. b' ! i = ?b1 ! i)"
      by simp
    have l: "length ?b1 = length b"
      using ok by (intro length_write_at) (simp add: bytes_at_def)
    have "\<forall>i<tx. ?b1 ! i = b ! i"
      using ok by (auto intro!: nth_write_at_lt)
    with IH l show ?thesis by simp
  next
    case False
    with "1.prems" have "b' = b"
      by (subst (asm) msmppencrypt_loop.simps) auto
    then show ?thesis by simp
  qed
qed

lemma msmppdecrypt_frame:
  assumes "msmppdecrypt b text len shared auth salt = Ret (Some b')"
  shows "length b' = length b \<and> (\<forall>i<text. b' ! i = b ! i) \<and> len \<le> 240"
  using assms msmppdecrypt_loop_frame
    [of b "text" len shared 16 "map2 (XOR) (bytes_at b text 16) (md5 (shared @ auth @ salt))" b']
  by (auto simp: msmppdecrypt_def Let_def split: if_splits)

lemma msmppencrypt_frame:
  assumes "msmppencrypt b text len shared auth salt = Ret (Some b')"
  shows "length b' = length b \<and> (\<forall>i<text. b' ! i = b ! i)"
proof -
  let ?b1 = "write_at b text (map2 (XOR) (bytes_at b text 16) (md5 (shared @ auth @ salt)))"
  from assms have ok: "\<not> length b < text + 16"
    and l: "msmppencrypt_loop ?b1 text len shared 16 = Ret (Some b')"
    by (auto simp: msmppencrypt_def Let_def split: if_splits)
  from msmppencrypt_loop_frame [OF l]
  have "length b' = length ?b1 \<and> (\<forall>i<text. b' ! i = ?b1 ! i)" .
  moreover have "length ?b1 = length b"
    using ok by (intro length_write_at) (simp add: bytes_at_def)
  moreover have "\<forall>i<text. ?b1 ! i = b ! i"
    using ok by (auto intro!: nth_write_at_lt)
  ultimately show ?thesis by simp
qed

lemma msmpprecrypt_frame:
  assumes "msmpprecrypt b msmpp len os ns oa na = Ret (Some b')"
  shows "length b' = length b \<and> (\<forall>i<msmpp + 2. b' ! i = b ! i) \<and> 18 \<le> len \<and> len \<le> 242"
proof -
  from assms have len: "18 \<le> len" 
    by (auto simp: msmpprecrypt_def split: if_splits)
  from assms obtain b1 where
    d: "msmppdecrypt b (msmpp + 2) (len - 2) (take (length os mod 256) os) oa
          (bytes_at b msmpp 2) = Ret (Some b1)"
    and e: "msmppencrypt b1 (msmpp + 2) (len - 2) (take (length ns mod 256) ns) na
          (bytes_at b1 msmpp 2) = Ret (Some b')"
    by (auto simp: msmpprecrypt_def split: if_splits outcome.splits option.splits)
  from msmppdecrypt_frame [OF d] msmppencrypt_frame [OF e] len
  show ?thesis by auto
qed

lemma msmpprecrypt_step:
  assumes "msmpprecrypt b (ATTRVAL a) (nat (ATTRVALLEN b a mod 256)) os ns oa na = Ret (Some b')"
  shows "length b' = length b \<and> (\<forall>i<a + 4. b' ! i = b ! i) \<and>
         ATTRLEN b' a = ATTRLEN b a \<and> 20 \<le> ATTRLEN b a"
proof -
  from msmpprecrypt_frame [OF assms]
  have f: "length b' = length b" "\<forall>i<a + 4. b' ! i = b ! i"
    and l: "18 \<le> nat (ATTRVALLEN b a mod 256)" "nat (ATTRVALLEN b a mod 256) \<le> 242"
    by (auto simp: ATTRVAL_def)
  from f(2) have e: "ATTRLEN b' a = ATTRLEN b a" by (simp add: ATTRLEN_def)
  have "20 \<le> ATTRLEN b a"
  proof (rule ccontr)
    assume "\<not> 20 \<le> ATTRLEN b a"
    then have "ATTRLEN b a < 20" by simp
    then consider "ATTRLEN b a < 2" | "2 \<le> ATTRLEN b a \<and> ATTRLEN b a < 20" by linarith
    then show False
    proof cases
      case 1
      then have "ATTRLEN b a = 0 \<or> ATTRLEN b a = 1" by linarith
      then have "ATTRVALLEN b a mod 256 = int (ATTRLEN b a) + 254"
        by (auto simp: ATTRVALLEN_def)
      with l(2) show False by linarith
    next
      case 2
      then have "ATTRVALLEN b a mod 256 = int (ATTRLEN b a) - 2"
        by (simp add: ATTRVALLEN_def)
      with l(1) 2 show False by linarith
    qed
  qed
  with f e show ?thesis by simp
qed

termination msmppe_loop
proof (relation "measure (\<lambda>(b, attrs, len, ty, os, ns, oa, na, attr).
                   nat (len - (int attr - int attrs)))", goal_cases)
  case 1
  show ?case by simp
next
  case (2 b attrs len ty os ns oa na attr x2 a x2a b')
  from 2 have ag: "attrget b attr (len - (int attr - int attrs)) ty = Ret (Some a)" by simp
  from 2 have mr: "msmpprecrypt b (ATTRVAL a) (nat (ATTRVALLEN b a mod 256)) os ns oa na
                   = Ret (Some b')" by simp
  from attrget_Some [OF ag] have "attr \<le> a" "1 < len - (int attr - int attrs) - (int a - int attr)"
    by auto
  moreover from msmpprecrypt_step [OF mr] have "ATTRLEN b' a = ATTRLEN b a" "20 \<le> ATTRLEN b a"
    by auto
  ultimately show ?case by simp
qed

declare msmppe_loop.simps [simp del]

lemma msmppe_loop_frame:
  "msmppe_loop b attrs len ty os ns oa na attr = Ret (Some b') \<Longrightarrow>
   length b' = length b \<and> (\<forall>i<attr + 4. b' ! i = b ! i)"
proof (induction b attrs len ty os ns oa na attr rule: msmppe_loop.induct)
  case (1 b attrs len ty os ns oa na attr)
  show ?case
  proof (cases "attrget b attr (len - (int attr - int attrs)) ty")
    case (Ret x)
    show ?thesis
    proof (cases x)
      case None
      with Ret "1.prems" have "b' = b"
        by (subst (asm) msmppe_loop.simps) simp
      then show ?thesis by simp
    next
      case (Some a)
      with Ret "1.prems" obtain b1 where
        mr: "msmpprecrypt b (ATTRVAL a) (nat (ATTRVALLEN b a mod 256)) os ns oa na = Ret (Some b1)"
        and rec: "msmppe_loop b1 attrs len ty os ns oa na (a + ATTRLEN b1 a) = Ret (Some b')"
        by (subst (asm) msmppe_loop.simps) (auto split: outcome.splits option.splits)
      from "1.IH" [OF Ret Some mr refl rec]
      have IH: "length b' = length b1 \<and> (\<forall>i<a + ATTRLEN b1 a + 4. b' ! i = b1 ! i)" by simp
      from Ret Some have "attr \<le> a" by (auto dest: attrget_Some)
      with IH msmpprecrypt_step [OF mr] show ?thesis by auto
    qed
  next
    case Fault
    with "1.prems" show ?thesis by (subst (asm) msmppe_loop.simps) simp
  next
    case Hang
    with "1.prems" show ?thesis by (subst (asm) msmppe_loop.simps) simp
  qed
qed

lemma msmppe_frame:
  "msmppe b attrs len ty os ns oa na = Ret (Some b') \<Longrightarrow>
   length b' = length b \<and> (\<forall>i<attrs + 4. b' ! i = b ! i)"
  unfolding msmppe_def by (rule msmppe_loop_frame)

lemma clientrd_vsattr_next:
  assumes "clientrd_vsattr b len os ns oa na attr0 = Ret (VsNext b' attr')"
  shows "length b' = length b \<and> (\<forall>i<20. b' ! i = b ! i) \<or> length b' = length b \<and> attr0 < 20"
    and "attr0 < attr'"
    and "1 < len - (int attr0 - 20)"
    and "len - (int attr' - 20) < len - (int attr0 - 20)"
proof -
  from assms obtain attr where
    ag: "attrget b attr0 (len - (int attr0 - 20)) RAD_Attr_Vendor_Specific = Ret (Some attr)"
    by (auto simp: clientrd_vsattr_def split: outcome.splits option.splits)
  from attrget_Some [OF ag] have ge: "attr0 \<le> attr"
    and rem: "1 < len - (int attr0 - 20) - (int attr - int attr0)" by auto
  from assms ag have vl: "\<not> ATTRVALLEN b attr \<le> 4"
    by (auto simp: clientrd_vsattr_def split: if_splits)
  then have al: "7 \<le> ATTRLEN b attr" by (simp add: ATTRVALLEN_def)
  from assms ag vl have
    "(b' = b \<and> attr' = attr + ATTRLEN b attr) \<or>
     (\<exists>cs b1. msmppe b (ATTRVAL attr + 4) (ATTRVALLEN b attr - 4) RAD_VS_ATTR_MS_MPPE_Send_Key os cs oa na
                = Ret (Some b1) \<and>
              msmppe b1 (ATTRVAL attr + 4) (ATTRVALLEN b attr - 4) RAD_VS_ATTR_MS_MPPE_Recv_Key os cs oa na
                = Ret (Some b') \<and> attr' = attr + ATTRLEN b' attr)"
    by (auto simp: clientrd_vsattr_def Let_def
        split: if_splits outcome.splits option.splits bool.splits)
  then have fr: "length b' = length b \<and> (\<forall>i<attr + 10. b' ! i = b ! i) \<and>
                 attr' = attr + ATTRLEN b attr"
  proof (elim disjE exE conjE)
    assume "b' = b" "attr' = attr + ATTRLEN b attr"
    then show ?thesis by simp
  next
    fix cs b1
    assume m1: "msmppe b (ATTRVAL attr + 4) (ATTRVALLEN b attr - 4) RAD_VS_ATTR_MS_MPPE_Send_Key os cs oa na
                = Ret (Some b1)"
      and m2: "msmppe b1 (ATTRVAL attr + 4) (ATTRVALLEN b attr - 4) RAD_VS_ATTR_MS_MPPE_Recv_Key os cs oa na
                = Ret (Some b')"
      and a': "attr' = attr + ATTRLEN b' attr"
    from msmppe_frame [OF m1] msmppe_frame [OF m2]
    have "length b' = length b \<and> (\<forall>i<attr + 10. b' ! i = b ! i)"
      by (auto simp: ATTRVAL_def)
    moreover from this have "ATTRLEN b' attr = ATTRLEN b attr" by (simp add: ATTRLEN_def)
    ultimately show ?thesis using a' by simp
  qed
  show "attr0 < attr'" using fr al ge by simp
  show "1 < len - (int attr0 - 20)" using rem ge by simp
  show "len - (int attr' - 20) < len - (int attr0 - 20)" using fr al ge by simp
  show "length b' = length b \<and> (\<forall>i<20. b' ! i = b ! i) \<or> length b' = length b \<and> attr0 < 20"
    using fr ge by (cases "attr0 < 20") auto
qed

termination clientrd_vsattrs
proof (relation "measure (\<lambda>(len, os, ns, oa, na, b, attr0). nat (len - (int attr0 - 20)))",
       goal_cases)
  case 1
  show ?case by simp
next
  case (2 len os ns oa na b attr0 x1 b' attr')
  then have "clientrd_vsattr b len os ns oa na attr0 = Ret (VsNext b' attr')" by simp
  from clientrd_vsattr_next(3,4) [OF this] show ?case by simp
qed

declare clientrd_vsattrs.simps [simp del]

lemma clientrd_vsattrs_frame:
  "clientrd_vsattrs len os ns oa na b attr0 = Ret (r, b') \<Longrightarrow> 20 \<le> attr0 \<Longrightarrow>
   length b' = length b \<and> (\<forall>i<20. b' ! i = b ! i)"
proof (induction len os ns oa na b attr0 rule: clientrd_vsattrs.induct)
  case (1 len os ns oa na b attr0)
  show ?case
  proof (cases "clientrd_vsattr b len os ns oa na attr0")
    case (Ret st)
    show ?thesis
    proof (cases st)
      case VsDone
      with Ret "1.prems" show ?thesis by (subst (asm) clientrd_vsattrs.simps) simp
    next
      case (VsBreak a)
      with Ret "1.prems" show ?thesis by (subst (asm) clientrd_vsattrs.simps) simp
    next
      case (VsNext b1 attr1)
      with Ret "1.prems" have rec: "clientrd_vsattrs len os ns oa na b1 attr1 = Ret (r, b')"
        by (subst (asm) clientrd_vsattrs.simps) simp
      from Ret VsNext have st: "clientrd_vsattr b len os ns oa na attr0 = Ret (VsNext b1 attr1)"
        by simp
      from clientrd_vsattr_next(1,2) [OF st] "1.prems"(2)
      have f: "length b1 = length b" "\<forall>i<20. b1 ! i = b ! i" "20 \<le> attr1" by auto
      from "1.IH" [OF Ret VsNext rec f(3)] f show ?thesis by simp
    qed
  next
    case Fault
    with "1.prems" show ?thesis by (subst (asm) clientrd_vsattrs.simps) simp
  next
    case Hang
    with "1.prems" show ?thesis by (subst (asm) clientrd_vsattrs.simps) simp
  qed
qed

subsection \<open>Replies from servers\<close>

lemma clientrd_deliver_Handed:
  assumes "clientrd_deliver P s i rq ma b = (Handed fr b' sa r, P')"
  shows "fr = rqfrom rq"
  using assms
  by (auto simp: clientrd_deliver_def Let_def
      split: option.splits outcome.splits if_splits prod.splits bool.splits)

lemma clientrd_checked_Handed:
  assumes "clientrd_checked P s i rq rqbuf b = (Handed fr b' sa r, P')"
  shows "\<exists>ma b1 b2.
           attrvalidate b 20 (int (RADLEN b) - 20) = Ret True \<and>
           clientrd_msgauth b (int (RADLEN b) - 20) rqbuf (secret (conf (server_heap P ! s)))
             = Ret (Inr (ma, b1)) \<and>
           rqbuf ! 0 \<noteq> RAD_Status_Server \<and>
           clientrd_vsattrs (int (RADLEN b) - 20) (secret (conf (server_heap P ! s)))
             (case client_secret P (rqfrom rq) of Ret cs \<Rightarrow> Some cs | r \<Rightarrow> None)
             (bytes_at rqbuf 4 16) (origauth rq) b1 20 = Ret (None, b2) \<and>
           clientrd_deliver P s i rq ma b2 = (Handed fr b' sa r, P')"
  using assms
  by (auto simp: clientrd_checked_def Let_def
      split: option.splits outcome.splits if_splits prod.splits bool.splits sum.splits)

lemma clientrd_Handed:
  assumes "clientrd P s b = (Handed fr b' sa r, P')"
  shows "\<exists>rqbuf.
           s < length (server_heap P) \<and> 20 \<le> length b \<and>
           (b ! 0 = RAD_Access_Accept \<or> b ! 0 = RAD_Access_Reject \<or> b ! 0 = RAD_Access_Challenge) \<and>
           unat (b ! 1) < length (requests (server_heap P ! s)) \<and>
           buf (requests (server_heap P ! s) ! unat (b ! 1)) = Some rqbuf \<and>
           tries (requests (server_heap P ! s) ! unat (b ! 1)) \<noteq> 0 \<and>
           \<not> received (requests (server_heap P ! s) ! unat (b ! 1)) \<and>
           20 \<le> length rqbuf \<and>
           validauth b (bytes_at rqbuf 4 16) (secret (conf (server_heap P ! s))) = Ret True \<and>
           clientrd_checked
             (P\<lparr>server_heap := (server_heap P)[s := (server_heap P ! s)\<lparr>connectionok := True\<rparr>]\<rparr>)
             s (unat (b ! 1)) (requests (server_heap P ! s) ! unat (b ! 1)) rqbuf b
             = (Handed fr b' sa r, P')"
  using assms
  by (auto simp: clientrd_def Let_def
      split: option.splits outcome.splits if_splits prod.splits bool.splits)

text \<open>
  C5. When a round of \<^verbatim>\<open>clientrd\<close> hands a reply to \<^verbatim>\<open>sendreply\<close>, the code of the
  reply is Access-Accept, Access-Reject or Access-Challenge, the slot that the identifier
  of the reply names is occupied by a request that was sent at least once and is not
  marked as received, and the Response Authenticator of the reply is right for the
  authenticator of that request and the secret of the server.
\<close>

theorem clientrd_hands_only_matched:
  assumes "clientrd P s b = (Handed fr b' sa r, P')"
  shows "(b ! 0 = RAD_Access_Accept \<or> b ! 0 = RAD_Access_Reject \<or> b ! 0 = RAD_Access_Challenge) \<and>
         (\<exists>rqbuf. buf (requests (server_heap P ! s) ! unat (b ! 1)) = Some rqbuf \<and>
                  1 \<le> tries (requests (server_heap P ! s) ! unat (b ! 1)) \<and>
                  \<not> received (requests (server_heap P ! s) ! unat (b ! 1)) \<and>
                  validauth b (bytes_at rqbuf 4 16) (secret (conf (server_heap P ! s))) = Ret True)"
  using clientrd_Handed [OF assms] by auto

text \<open>The Access-Accept for the request in flight is handed on.\<close>

lemma ex_inflight_slot:
  "requests (server_heap (ex_proxy [] ex_server_inflight) ! 0) ! unat (ex_reply_accept ! 1)
   = ex_forwarded\<lparr>tries := 1, expiry := \<lparr>tv_sec = 106, tv_usec = 0\<rparr>\<rparr>"
  "requests (server_heap (ex_proxy [] ex_server_inflight) ! 0) ! unat (ex_reply_msgauth ! 1)
   = ex_forwarded\<lparr>tries := 1, expiry := \<lparr>tv_sec = 106, tv_usec = 0\<rparr>\<rparr>"
  "requests (server_heap (ex_proxy [] ex_server_inflight) ! 0) ! unat (ex_reply_shortvsa ! 1)
   = ex_forwarded\<lparr>tries := 1, expiry := \<lparr>tv_sec = 106, tv_usec = 0\<rparr>\<rparr>"
  by (simp_all add: ex_proxy_sel ex_server_inflight_def ex_server_def ex_reply_accept_def
      ex_reply_msgauth_def ex_reply_shortvsa_def)

lemma ex_clientrd_accept: "fst (clientrd (ex_proxy [] ex_server_inflight) 0 ex_reply_accept)
  = Handed (Some 0) [0x02, 0x2a, 0x00, 0x14, 0x00, 0x01, 0x02, 0x03,
      0x04, 0x05, 0x06, 0x07, 0x08, 0x09, 0x0a, 0x0b,
      0x0c, 0x0d, 0x0e, 0x0f] (Some 7) Enqueued"
  by code_simp

theorem clientrd_hands_only_matched_witness:
  "fst (clientrd (ex_proxy [] ex_server_inflight) 0 ex_reply_accept)
     = Handed (Some 0)
        [0x02, 0x2a, 0x00, 0x14, 0x00, 0x01, 0x02, 0x03,
         0x04, 0x05, 0x06, 0x07, 0x08, 0x09, 0x0a, 0x0b,
         0x0c, 0x0d, 0x0e, 0x0f] (Some 7) Enqueued \<and>
   ex_reply_accept ! 0 = RAD_Access_Accept \<and>
   tries (requests (server_heap (ex_proxy [] ex_server_inflight) ! 0) ! unat (ex_reply_accept ! 1)) = 1 \<and>
   \<not> received (requests (server_heap (ex_proxy [] ex_server_inflight) ! 0) ! unat (ex_reply_accept ! 1)) \<and>
   validauth ex_reply_accept
     [0x10, 0x11, 0x12, 0x13, 0x14, 0x15, 0x16, 0x17,
      0x18, 0x19, 0x1a, 0x1b, 0x1c, 0x1d, 0x1e, 0x1f] testing123 = Ret True"
proof -
  let ?P = "ex_proxy [] ex_server_inflight"
  let ?b' = "[0x02, 0x2a, 0x00, 0x14, 0x00, 0x01, 0x02, 0x03,
              0x04, 0x05, 0x06, 0x07, 0x08, 0x09, 0x0a, 0x0b,
              0x0c, 0x0d, 0x0e, 0x0f] :: u8 list"
  have h: "clientrd ?P 0 ex_reply_accept
           = (Handed (Some 0) ?b' (Some 7) Enqueued, snd (clientrd ?P 0 ex_reply_accept))"
    using ex_clientrd_accept by (simp add: prod_eq_iff)
  from clientrd_hands_only_matched [OF h] obtain rqbuf where
    r: "buf (requests (server_heap ?P ! 0) ! unat (ex_reply_accept ! 1)) = Some rqbuf"
      "validauth ex_reply_accept (bytes_at rqbuf 4 16) (secret (conf (server_heap ?P ! 0))) = Ret True"
    by blast
  from r(1) [unfolded ex_inflight_slot] have "rqbuf = [0x01, 0x00, 0x00, 0x1b,
                           0x10, 0x11, 0x12, 0x13, 0x14, 0x15, 0x16, 0x17,
                           0x18, 0x19, 0x1a, 0x1b, 0x1c, 0x1d, 0x1e, 0x1f,
                           0x01, 0x07, 0x61, 0x6c, 0x69, 0x63, 0x65]"
    by (simp add: ex_forwarded_def ex_free_def)
  with r(2) have "validauth ex_reply_accept
     [0x10, 0x11, 0x12, 0x13, 0x14, 0x15, 0x16, 0x17,
      0x18, 0x19, 0x1a, 0x1b, 0x1c, 0x1d, 0x1e, 0x1f] testing123 = Ret True"
    by (simp add: bytes_at_def ex_proxy_sel ex_server_inflight_def ex_server_def ex_srvconf_def)
  moreover have "ex_reply_accept ! 0 = RAD_Access_Accept"
    by (simp add: ex_reply_accept_def RAD_Access_Accept_def)
  ultimately show ?thesis
    using ex_clientrd_accept unfolding ex_inflight_slot
    by (simp add: ex_forwarded_def ex_free_def)
qed

lemma client_secret_heap:
  "client_heap P' = client_heap P \<Longrightarrow> client_secret P' fr = client_secret P fr"
  by (simp add: client_secret_def split: option.splits)

lemma clientrd_msgauth_Inr:
  assumes "clientrd_msgauth b len rqbuf sec = Ret (Inr (ma, b1))" "20 \<le> length b"
  shows "attrget b 20 len RAD_Attr_Message_Authenticator = Ret ma \<and> length b1 = length b"
proof (cases "attrget b 20 len RAD_Attr_Message_Authenticator")
  case (Ret x)
  show ?thesis
  proof (cases x)
    case None
    with Ret assms show ?thesis by (simp add: clientrd_msgauth_def)
  next
    case (Some m)
    let ?b1 = "write_at b 4 (bytes_at rqbuf 4 16)"
    from Ret Some assms obtain b2 where
      rl: "20 \<le> length rqbuf" and ck: "checkmessageauth ?b1 (ATTRVAL m) sec = Ret (True, b2)"
      and e: "ma = Some m" "b1 = write_at b2 4 (bytes_at b 4 16)"
      by (auto simp: clientrd_msgauth_def Let_def
          split: if_splits outcome.splits bool.splits prod.splits)
    have l1: "length ?b1 = length b"
      using assms(2) rl by (intro length_write_at) (simp add: length_bytes_at)
    from checkmessageauth_restores [OF ck] have "b2 = ?b1" .
    with l1 e assms(2) have "length b1 = length b"
      by (simp add: length_write_at length_bytes_at)
    with Ret Some e show ?thesis by simp
  qed
next
  case Fault
  with assms show ?thesis by (simp add: clientrd_msgauth_def)
next
  case Hang
  with assms show ?thesis by (simp add: clientrd_msgauth_def)
qed

lemma clientrd_deliver_Handed_buf:
  assumes "clientrd_deliver P s i rq ma b = (Handed fr b' sa r, P')"
  shows "fr = rqfrom rq \<and>
         (case ma of
            None \<Rightarrow> b' = write_at (b[1 := origid rq]) 4 (origauth rq)
          | Some m \<Rightarrow>
              (\<exists>cs. client_secret P fr = Ret cs \<and>
                 createmessageauth (write_at (b[1 := origid rq]) 4 (origauth rq))
                   (Some (ATTRVAL m)) cs = Ret (True, b')))"
  using assms
  by (auto simp: clientrd_deliver_def Let_def
      split: option.splits outcome.splits if_splits prod.splits bool.splits)

text \<open>
  C6. The buffer that a round of \<^verbatim>\<open>clientrd\<close> hands to \<^verbatim>\<open>sendreply\<close> for the client
  of the request has the client's original identifier in byte 1 and the original Request
  Authenticator in bytes 4..20; and if the reply has a Message-Authenticator attribute at
  \<open>m\<close>, its 16 bytes are the HMAC-MD5, under the secret of that client, of this buffer
  with these bytes zeroed, so that \<^verbatim>\<open>checkmessageauth\<close> accepts it. (\<^verbatim>\<open>sendreply\<close> then
  signs the packet: \<^verbatim>\<open>radsign\<close> puts the Response Authenticator, computed over this
  buffer and the client's secret, into bytes 4..20 of what is queued.)
\<close>

theorem clientrd_restores_origin:
  assumes h: "clientrd P s b = (Handed fr b' sa r, P')"
    and oa: "length (origauth (requests (server_heap P ! s) ! unat (b ! 1))) = 16"
  shows "fr = rqfrom (requests (server_heap P ! s) ! unat (b ! 1)) \<and>
         b' ! 1 = origid (requests (server_heap P ! s) ! unat (b ! 1)) \<and>
         bytes_at b' 4 16 = origauth (requests (server_heap P ! s) ! unat (b ! 1)) \<and>
         (\<forall>m. attrget b 20 (int (RADLEN b) - 20) RAD_Attr_Message_Authenticator = Ret (Some m) \<longrightarrow>
            (\<exists>cs. client_secret P fr = Ret cs \<and>
                  bytes_at b' (ATTRVAL m) 16 =
                    hmac_md5 cs (take (RADLEN (write_at b' (ATTRVAL m) (replicate 16 0)))
                                      (write_at b' (ATTRVAL m) (replicate 16 0))) \<and>
                  checkmessageauth b' (ATTRVAL m) cs = Ret (True, b')))"
proof -
  let ?rq = "requests (server_heap P ! s) ! unat (b ! 1)"
  let ?P0 = "P\<lparr>server_heap := (server_heap P)[s := (server_heap P ! s)\<lparr>connectionok := True\<rparr>]\<rparr>"
  from clientrd_Handed [OF h] obtain rqbuf where
    bl: "20 \<le> length b"
    and ck: "clientrd_checked ?P0 s (unat (b ! 1)) ?rq rqbuf b = (Handed fr b' sa r, P')"
    by blast
  from clientrd_checked_Handed [OF ck] obtain ma b1 b2 sec where
    mg: "clientrd_msgauth b (int (RADLEN b) - 20) rqbuf sec = Ret (Inr (ma, b1))"
    and vs: "clientrd_vsattrs (int (RADLEN b) - 20) (secret (conf (server_heap ?P0 ! s)))
             (case client_secret ?P0 (rqfrom ?rq) of Ret cs \<Rightarrow> Some cs | r \<Rightarrow> None)
             (bytes_at rqbuf 4 16) (origauth ?rq) b1 20 = Ret (None, b2)"
    and dl: "clientrd_deliver ?P0 s (unat (b ! 1)) ?rq ma b2 = (Handed fr b' sa r, P')"
    by blast
  from clientrd_msgauth_Inr [OF mg bl]
  have ag: "attrget b 20 (int (RADLEN b) - 20) RAD_Attr_Message_Authenticator = Ret ma"
    and l1: "length b1 = length b" by auto
  from clientrd_vsattrs_frame [OF vs] l1 have l2: "length b2 = length b" by simp
  let ?c = "write_at (b2[1 := origid ?rq]) 4 (origauth ?rq)"
  have lc: "length ?c = length b" using l2 bl oa by (simp add: length_write_at)
  have c1: "?c ! 1 = origid ?rq" using l2 bl by (simp add: nth_write_at_lt)
  have c4: "bytes_at ?c 4 16 = origauth ?rq"
    using bytes_at_write_at [of 4 "origauth ?rq" "b2[1 := origid ?rq]"] l2 bl oa by simp
  from clientrd_deliver_Handed_buf [OF dl]
  have fr: "fr = rqfrom ?rq"
    and cs: "case ma of None \<Rightarrow> b' = ?c
             | Some m \<Rightarrow> (\<exists>cs. client_secret ?P0 fr = Ret cs \<and>
                 createmessageauth ?c (Some (ATTRVAL m)) cs = Ret (True, b'))"
    by auto
  show ?thesis
  proof (cases ma)
    case None
    with cs have "b' = ?c" by simp
    with c1 c4 fr ag None show ?thesis by simp
  next
    case (Some m)
    with cs obtain cs' where sec: "client_secret ?P0 fr = Ret cs'"
      and cm: "createmessageauth ?c (Some (ATTRVAL m)) cs' = Ret (True, b')" by auto
    from ag Some have m20: "20 \<le> m" by (auto dest: attrget_Some)
    then have lt: "\<And>i. i < 20 \<Longrightarrow> i < ATTRVAL m" by (simp add: ATTRVAL_def)
    have same: "\<forall>i<20. b' ! i = ?c ! i"
      using createmessageauth_nth [OF cm lt] by simp
    have lb: "length b' = length ?c"
      using createmessageauth_nth [OF cm lt [of 0]] by simp
    from same have b1: "b' ! 1 = ?c ! 1" by simp
    have "bytes_at b' 4 16 = bytes_at ?c 4 16"
      using same lb lc bl by (intro bytes_at_eqI) auto
    with c4 have b4: "bytes_at b' 4 16 = origauth ?rq" by simp
    have sec': "client_secret P fr = Ret cs'"
      using sec client_secret_heap [of ?P0 P fr] by simp
    from createmessageauth_then_check [OF cm] sec' b1 c1 b4 fr ag Some
    show ?thesis by auto
  qed
qed

text \<open>The reply with a Message-Authenticator, and what is handed to \<^verbatim>\<open>sendreply\<close>.\<close>

lemma ex_clientrd_msgauth: "fst (clientrd (ex_proxy [] ex_server_inflight) 0 ex_reply_msgauth)
  = Handed (Some 0)
     [0x02, 0x2a, 0x00, 0x26, 0x00, 0x01, 0x02, 0x03,
      0x04, 0x05, 0x06, 0x07, 0x08, 0x09, 0x0a, 0x0b,
      0x0c, 0x0d, 0x0e, 0x0f, 0x50, 0x12, 0x4f, 0x54,
      0x4e, 0x28, 0x31, 0xa5, 0x0a, 0xf0, 0x55, 0x42,
      0xd6, 0xf8, 0xa1, 0xcc, 0xab, 0xb5] (Some 7) Enqueued"
  by code_simp

theorem clientrd_restores_origin_witness:
  "fst (clientrd (ex_proxy [] ex_server_inflight) 0 ex_reply_msgauth)
     = Handed (Some 0)
        [0x02, 0x2a, 0x00, 0x26, 0x00, 0x01, 0x02, 0x03,
         0x04, 0x05, 0x06, 0x07, 0x08, 0x09, 0x0a, 0x0b,
         0x0c, 0x0d, 0x0e, 0x0f, 0x50, 0x12, 0x4f, 0x54,
         0x4e, 0x28, 0x31, 0xa5, 0x0a, 0xf0, 0x55, 0x42,
         0xd6, 0xf8, 0xa1, 0xcc, 0xab, 0xb5] (Some 7) Enqueued \<and>
   length (origauth (requests (server_heap (ex_proxy [] ex_server_inflight) ! 0) !
                      unat (ex_reply_msgauth ! 1))) = 16 \<and>
   origid (requests (server_heap (ex_proxy [] ex_server_inflight) ! 0) !
            unat (ex_reply_msgauth ! 1)) = 0x2a \<and>
   attrget ex_reply_msgauth 20 (int (RADLEN ex_reply_msgauth) - 20) RAD_Attr_Message_Authenticator
     = Ret (Some 20) \<and>
   checkmessageauth
        [0x02, 0x2a, 0x00, 0x26, 0x00, 0x01, 0x02, 0x03,
         0x04, 0x05, 0x06, 0x07, 0x08, 0x09, 0x0a, 0x0b,
         0x0c, 0x0d, 0x0e, 0x0f, 0x50, 0x12, 0x4f, 0x54,
         0x4e, 0x28, 0x31, 0xa5, 0x0a, 0xf0, 0x55, 0x42,
         0xd6, 0xf8, 0xa1, 0xcc, 0xab, 0xb5] 22 testing123
     = Ret (True,
        [0x02, 0x2a, 0x00, 0x26, 0x00, 0x01, 0x02, 0x03,
         0x04, 0x05, 0x06, 0x07, 0x08, 0x09, 0x0a, 0x0b,
         0x0c, 0x0d, 0x0e, 0x0f, 0x50, 0x12, 0x4f, 0x54,
         0x4e, 0x28, 0x31, 0xa5, 0x0a, 0xf0, 0x55, 0x42,
         0xd6, 0xf8, 0xa1, 0xcc, 0xab, 0xb5])"
proof -
  let ?P = "ex_proxy [] ex_server_inflight"
  let ?b = ex_reply_msgauth
  let ?rq = "requests (server_heap ?P ! 0) ! unat (?b ! 1)"
  let ?b' = "[0x02, 0x2a, 0x00, 0x26, 0x00, 0x01, 0x02, 0x03,
         0x04, 0x05, 0x06, 0x07, 0x08, 0x09, 0x0a, 0x0b,
         0x0c, 0x0d, 0x0e, 0x0f, 0x50, 0x12, 0x4f, 0x54,
         0x4e, 0x28, 0x31, 0xa5, 0x0a, 0xf0, 0x55, 0x42,
         0xd6, 0xf8, 0xa1, 0xcc, 0xab, 0xb5] :: u8 list"
  have h: "clientrd ?P 0 ?b = (Handed (Some 0) ?b' (Some 7) Enqueued, snd (clientrd ?P 0 ?b))"
    using ex_clientrd_msgauth by (simp add: prod_eq_iff)
  have oa: "length (origauth ?rq) = 16" and oi: "origid ?rq = 0x2a"
    unfolding ex_inflight_slot by (simp_all add: ex_forwarded_def ex_free_def)
  have ag: "attrget ?b 20 (int (RADLEN ?b) - 20) RAD_Attr_Message_Authenticator = Ret (Some 20)"
    by (simp add: attrget.simps ex_reply_msgauth_def RADLEN_def ATTRTYPE_def
        RAD_Attr_Message_Authenticator_def)
  have cs: "client_secret ?P (Some 0) = Ret testing123"
    by (simp add: client_secret_def ex_proxy_sel ex_clconf_def)
  note th = clientrd_restores_origin [OF h oa]
  from th ag have "\<exists>cs. client_secret ?P (Some 0) = Ret cs \<and>
                     checkmessageauth ?b' (ATTRVAL 20) cs = Ret (True, ?b')"
    by blast
  with cs have "checkmessageauth ?b' 22 testing123 = Ret (True, ?b')"
    by (simp add: ATTRVAL_def)
  with ex_clientrd_msgauth oa oi ag show ?thesis by simp
qed

lemma clientrd_msgauth_same:
  assumes "clientrd_msgauth b len rqbuf sec = Ret (Inr (ma, b1))" "20 \<le> length b"
  shows "b1 = b"
proof (cases "attrget b 20 len RAD_Attr_Message_Authenticator")
  case (Ret x)
  show ?thesis
  proof (cases x)
    case None
    with Ret assms show ?thesis by (simp add: clientrd_msgauth_def)
  next
    case (Some m)
    let ?b1 = "write_at b 4 (bytes_at rqbuf 4 16)"
    from Ret Some assms obtain b2 where
      rl: "20 \<le> length rqbuf" and ck: "checkmessageauth ?b1 (ATTRVAL m) sec = Ret (True, b2)"
      and e: "b1 = write_at b2 4 (bytes_at b 4 16)"
      by (auto simp: clientrd_msgauth_def Let_def
          split: if_splits outcome.splits bool.splits prod.splits)
    from checkmessageauth_restores [OF ck] have "b2 = ?b1" .
    with e have "b1 = write_at ?b1 4 (bytes_at b 4 16)" by simp
    also have "\<dots> = write_at b 4 (bytes_at b 4 16)"
      using assms(2) rl by (simp add: write_at_write_at length_bytes_at)
    also have "\<dots> = b" using assms(2) by (simp add: write_at_bytes_at)
    finally show ?thesis .
  qed
next
  case Fault
  with assms show ?thesis by (simp add: clientrd_msgauth_def)
next
  case Hang
  with assms show ?thesis by (simp add: clientrd_msgauth_def)
qed

lemma vs_round_vsattrs:
  assumes "vs_round len os ns oa na s s'"
  shows "clientrd_vsattrs len os ns oa na (fst s) (snd s) =
         clientrd_vsattrs len os ns oa na (fst s') (snd s')"
  using assms unfolding vs_round_def
  by (subst clientrd_vsattrs.simps) simp

lemma vs_rounds_vsattrs:
  assumes "rtranclp (vs_round len os ns oa na) s s'"
  shows "clientrd_vsattrs len os ns oa na (fst s) (snd s) =
         clientrd_vsattrs len os ns oa na (fst s') (snd s')"
  using assms
proof (induction rule: rtranclp_induct)
  case base
  show ?case by simp
next
  case (step y z)
  with vs_round_vsattrs [of len os ns oa na y z] show ?case by simp
qed

lemma vsattrs_short:
  assumes "attrget bk ak (len - (int ak - 20)) RAD_Attr_Vendor_Specific = Ret (Some a)"
    and "ATTRVALLEN bk a \<le> 4"
  shows "clientrd_vsattr bk len os ns oa na ak = Ret (VsBreak a) \<or>
         (length bk \<le> a + 1 \<and> clientrd_vsattr bk len os ns oa na ak = Fault)"
  using assms by (simp add: clientrd_vsattr_def)

lemma clientrd_deliver_queue:
  assumes "clientrd_deliver P s i rq ma b = (res, P')" "\<forall>fr b' sa r. res \<noteq> Handed fr b' sa r"
  shows "replyq_heap P' = replyq_heap P"
  using assms
  by (auto simp: clientrd_deliver_def Let_def
      split: option.splits outcome.splits if_splits prod.splits bool.splits)

lemma clientrd_checked_queue:
  assumes "clientrd_checked P s i rq rqbuf b = (res, P')" "\<forall>fr b' sa r. res \<noteq> Handed fr b' sa r"
  shows "replyq_heap P' = replyq_heap P"
  using assms
  by (auto simp: clientrd_checked_def Let_def dest: clientrd_deliver_queue
      split: option.splits outcome.splits if_splits prod.splits bool.splits sum.splits)

lemma clientrd_queue:
  assumes "clientrd P s b = (res, P')" "\<forall>fr b' sa r. res \<noteq> Handed fr b' sa r"
  shows "replyq_heap P' = replyq_heap P"
  using assms
  by (auto simp: clientrd_def Let_def dest!: clientrd_checked_queue
      split: option.splits outcome.splits if_splits prod.splits bool.splits)

text \<open>
  C10. Let the loop over the Vendor-Specific attributes of a reply \<open>b\<close> to the request in
  slot \<open>b[1]\<close> have reached, after any number of rounds, the buffer \<open>bk\<close> and the pointer
  \<open>ak\<close>, and let the next Vendor-Specific attribute from there, at \<open>a\<close>, have a value of at
  most 4 bytes (whatever these bytes are). Then the loop ends with the pointer at \<open>a\<close>, not
  null; \<^verbatim>\<open>clientrd\<close> does not hand the reply to \<^verbatim>\<open>sendreply\<close>; and no reply queue
  changes.
\<close>

theorem clientrd_short_vendor_specific:
  assumes rq: "buf (requests (server_heap P ! s) ! unat (b ! 1)) = Some rqbuf"
    and reach: "rtranclp
        (vs_round (int (RADLEN b) - 20) (secret (conf (server_heap P ! s)))
           (case client_secret P (rqfrom (requests (server_heap P ! s) ! unat (b ! 1))) of
              Ret cs \<Rightarrow> Some cs | r \<Rightarrow> None)
           (bytes_at rqbuf 4 16) (origauth (requests (server_heap P ! s) ! unat (b ! 1))))
        (b, 20) (bk, ak)"
    and found: "attrget bk ak (int (RADLEN b) - 20 - (int ak - 20)) RAD_Attr_Vendor_Specific
                = Ret (Some a)"
    and inb: "a + 1 < length bk"
    and short: "ATTRVALLEN bk a \<le> 4"
  shows "clientrd_vsattrs (int (RADLEN b) - 20) (secret (conf (server_heap P ! s)))
           (case client_secret P (rqfrom (requests (server_heap P ! s) ! unat (b ! 1))) of
              Ret cs \<Rightarrow> Some cs | r \<Rightarrow> None)
           (bytes_at rqbuf 4 16) (origauth (requests (server_heap P ! s) ! unat (b ! 1))) b 20
         = Ret (Some a, bk) \<and>
         (\<forall>fr b' sa r P'. clientrd P s b \<noteq> (Handed fr b' sa r, P')) \<and>
         (\<forall>res P'. clientrd P s b = (res, P') \<longrightarrow> replyq_heap P' = replyq_heap P)"
proof -
  let ?rq = "requests (server_heap P ! s) ! unat (b ! 1)"
  let ?len = "int (RADLEN b) - 20"
  let ?os = "secret (conf (server_heap P ! s))"
  let ?ns = "case client_secret P (rqfrom ?rq) of Ret cs \<Rightarrow> Some cs | r \<Rightarrow> None"
  let ?oa = "bytes_at rqbuf 4 16"
  let ?P0 = "P\<lparr>server_heap := (server_heap P)[s := (server_heap P ! s)\<lparr>connectionok := True\<rparr>]\<rparr>"
  from vsattrs_short [OF found short, of ?os ?ns ?oa "origauth ?rq"] inb
  have "clientrd_vsattr bk ?len ?os ?ns ?oa (origauth ?rq) ak = Ret (VsBreak a)" by simp
  then have "clientrd_vsattrs ?len ?os ?ns ?oa (origauth ?rq) bk ak = Ret (Some a, bk)"
    by (subst clientrd_vsattrs.simps) simp
  with vs_rounds_vsattrs [OF reach]
  have scan: "clientrd_vsattrs ?len ?os ?ns ?oa (origauth ?rq) b 20 = Ret (Some a, bk)" by simp
  have never: "clientrd P s b \<noteq> (Handed fr b' sa r, P')" for fr b' sa r P'
  proof
    assume h: "clientrd P s b = (Handed fr b' sa r, P')"
    from clientrd_Handed [OF h] rq have
      sl: "s < length (server_heap P)" and bl: "20 \<le> length b"
      and ck: "clientrd_checked ?P0 s (unat (b ! 1)) ?rq rqbuf b = (Handed fr b' sa r, P')"
      by auto
    from clientrd_checked_Handed [OF ck] obtain ma b1 b2 where
      mg: "clientrd_msgauth b ?len rqbuf (secret (conf (server_heap ?P0 ! s))) = Ret (Inr (ma, b1))"
      and vs: "clientrd_vsattrs ?len (secret (conf (server_heap ?P0 ! s)))
               (case client_secret ?P0 (rqfrom ?rq) of Ret cs \<Rightarrow> Some cs | r \<Rightarrow> None)
               ?oa (origauth ?rq) b1 20 = Ret (None, b2)"
      by blast
    from clientrd_msgauth_same [OF mg bl] have "b1 = b" .
    moreover have "secret (conf (server_heap ?P0 ! s)) = ?os" using sl by simp
    moreover have "client_secret ?P0 (rqfrom ?rq) = client_secret P (rqfrom ?rq)"
      by (rule client_secret_heap) simp
    ultimately have "clientrd_vsattrs ?len ?os ?ns ?oa (origauth ?rq) b 20 = Ret (None, b2)"
      using vs by simp
    with scan show False by simp
  qed
  have queue: "replyq_heap P' = replyq_heap P" if "clientrd P s b = (res, P')" for res P'
  proof (rule clientrd_queue [OF that], intro allI notI)
    fix fr b' sa r assume "res = Handed fr b' sa r"
    with that never show False by simp
  qed
  from scan never queue show ?thesis by blast
qed

text \<open>
  The reply with a Vendor-Specific attribute of vendor 9 and then one of 4 value bytes: the
  loop passes the first, stops at the second (offset 28), and the reply is discarded.
\<close>

lemma ex_vs_first:
  "clientrd_vsattr ex_reply_shortvsa 14 testing123 (Some testing123)
     [0x10, 0x11, 0x12, 0x13, 0x14, 0x15, 0x16, 0x17,
      0x18, 0x19, 0x1a, 0x1b, 0x1c, 0x1d, 0x1e, 0x1f]
     [0x00, 0x01, 0x02, 0x03, 0x04, 0x05, 0x06, 0x07,
      0x08, 0x09, 0x0a, 0x0b, 0x0c, 0x0d, 0x0e, 0x0f] 20
   = Ret (VsNext ex_reply_shortvsa 28)"
  by (simp add: clientrd_vsattr_def attrget.simps ex_reply_shortvsa_def
      ATTRLEN_def ATTRTYPE_def ATTRVAL_def ATTRVALLEN_def RAD_Attr_Vendor_Specific_def)

lemma ex_vs_second:
  "attrget ex_reply_shortvsa 28 (14 - (int 28 - 20)) RAD_Attr_Vendor_Specific = Ret (Some 28)"
  "ATTRVALLEN ex_reply_shortvsa 28 \<le> 4" "28 + 1 < length ex_reply_shortvsa"
  by (simp_all add: attrget.simps ex_reply_shortvsa_def
      ATTRLEN_def ATTRTYPE_def ATTRVALLEN_def RAD_Attr_Vendor_Specific_def)

lemma ex_clientrd_shortvsa: "fst (clientrd (ex_proxy [] ex_server_inflight) 0 ex_reply_shortvsa) = Discarded MSAttrFailed"
  by code_simp

theorem clientrd_short_vendor_specific_witness:
  "vs_round 14 testing123 (Some testing123)
     [0x10, 0x11, 0x12, 0x13, 0x14, 0x15, 0x16, 0x17,
      0x18, 0x19, 0x1a, 0x1b, 0x1c, 0x1d, 0x1e, 0x1f]
     [0x00, 0x01, 0x02, 0x03, 0x04, 0x05, 0x06, 0x07,
      0x08, 0x09, 0x0a, 0x0b, 0x0c, 0x0d, 0x0e, 0x0f]
     (ex_reply_shortvsa, 20) (ex_reply_shortvsa, 28) \<and>
   attrget ex_reply_shortvsa 28 (14 - (int 28 - 20)) RAD_Attr_Vendor_Specific = Ret (Some 28) \<and>
   ATTRVALLEN ex_reply_shortvsa 28 \<le> 4 \<and>
   clientrd_vsattrs 14 testing123 (Some testing123)
     [0x10, 0x11, 0x12, 0x13, 0x14, 0x15, 0x16, 0x17,
      0x18, 0x19, 0x1a, 0x1b, 0x1c, 0x1d, 0x1e, 0x1f]
     [0x00, 0x01, 0x02, 0x03, 0x04, 0x05, 0x06, 0x07,
      0x08, 0x09, 0x0a, 0x0b, 0x0c, 0x0d, 0x0e, 0x0f]
     ex_reply_shortvsa 20 = Ret (Some 28, ex_reply_shortvsa) \<and>
   replyq_heap (snd (clientrd (ex_proxy [] ex_server_inflight) 0 ex_reply_shortvsa))
     = replyq_heap (ex_proxy [] ex_server_inflight)"
proof -
  let ?P = "ex_proxy [] ex_server_inflight"
  let ?b = ex_reply_shortvsa
  let ?rq = "requests (server_heap ?P ! 0) ! unat (?b ! 1)"
  let ?rqbuf = "[0x01, 0x00, 0x00, 0x1b,
                 0x10, 0x11, 0x12, 0x13, 0x14, 0x15, 0x16, 0x17,
                 0x18, 0x19, 0x1a, 0x1b, 0x1c, 0x1d, 0x1e, 0x1f,
                 0x01, 0x07, 0x61, 0x6c, 0x69, 0x63, 0x65] :: u8 list"
  let ?oa = "[0x10, 0x11, 0x12, 0x13, 0x14, 0x15, 0x16, 0x17,
              0x18, 0x19, 0x1a, 0x1b, 0x1c, 0x1d, 0x1e, 0x1f] :: u8 list"
  let ?na = "[0x00, 0x01, 0x02, 0x03, 0x04, 0x05, 0x06, 0x07,
              0x08, 0x09, 0x0a, 0x0b, 0x0c, 0x0d, 0x0e, 0x0f] :: u8 list"
  have rq: "buf ?rq = Some ?rqbuf"
    unfolding ex_inflight_slot by (simp add: ex_forwarded_def ex_free_def)
  have len: "int (RADLEN ?b) - 20 = 14" by (simp add: RADLEN_def ex_reply_shortvsa_def)
  have os: "secret (conf (server_heap ?P ! 0)) = testing123"
    by (simp add: ex_proxy_sel ex_server_inflight_def ex_server_def ex_srvconf_def)
  have ns: "(case client_secret ?P (rqfrom ?rq) of Ret cs \<Rightarrow> Some cs | r \<Rightarrow> None) = Some testing123"
    unfolding ex_inflight_slot
    by (simp add: client_secret_def ex_proxy_sel ex_forwarded_def ex_free_def ex_clconf_def)
  have oa: "bytes_at ?rqbuf 4 16 = ?oa" by (simp add: bytes_at_def)
  have na: "origauth ?rq = ?na"
    unfolding ex_inflight_slot by (simp add: ex_forwarded_def ex_free_def)
  have round: "vs_round 14 testing123 (Some testing123) ?oa ?na (?b, 20) (?b, 28)"
    by (simp add: vs_round_def ex_vs_first)
  then have reach: "rtranclp (vs_round (int (RADLEN ?b) - 20) (secret (conf (server_heap ?P ! 0)))
           (case client_secret ?P (rqfrom ?rq) of Ret cs \<Rightarrow> Some cs | r \<Rightarrow> None)
           (bytes_at ?rqbuf 4 16) (origauth ?rq)) (?b, 20) (?b, 28)"
    unfolding len os ns oa na by (rule r_into_rtranclp)
  have found: "attrget ?b 28 (int (RADLEN ?b) - 20 - (int 28 - 20)) RAD_Attr_Vendor_Specific
               = Ret (Some 28)"
    unfolding len by (rule ex_vs_second)
  note th = clientrd_short_vendor_specific [OF rq reach found ex_vs_second(3) ex_vs_second(2)]
  from th have scan: "clientrd_vsattrs 14 testing123 (Some testing123) ?oa ?na ?b 20 = Ret (Some 28, ?b)"
    unfolding len os ns oa na by (rule conjunct1)
  from th have "\<forall>res P'. clientrd ?P 0 ?b = (res, P') \<longrightarrow> replyq_heap P' = replyq_heap ?P"
    by blast
  then have "replyq_heap (snd (clientrd ?P 0 ?b)) = replyq_heap ?P"
    by (metis prod.collapse)
  with round scan ex_vs_second show ?thesis by simp
qed

subsection \<open>The writer of a server\<close>






subsection \<open>Connecting to a TLS server\<close>

text \<open>
  The loop of \<^verbatim>\<open>tlsconnect\<close> is still going exactly when every attempt so far has failed.
  When it returns, it has gone through a sequence of server states, one pause of
  \<open>tlsconnect_pause\<close> taking each to the next.
\<close>

lemma tlsconnect_loop_None:
  "tlsconnect_loop server attempts acc = None \<longleftrightarrow> (\<forall>a\<in>set attempts. \<not> snd a)"
proof (induction attempts arbitrary: server acc)
  case Nil
  show ?case by simp
next
  case (Cons a attempts)
  obtain now up where a: "a = (now, up)" by (cases a)
  obtain p s1 where step: "tlsconnect_pause server now = (p, s1)"
    by (cases "tlsconnect_pause server now")
  from Cons.IH [of s1 "acc @ [p]"] a step show ?case by (cases up) auto
qed

lemma tlsconnect_loop_trace:
  "tlsconnect_loop server attempts acc = Some (ps, server') \<Longrightarrow>
   \<exists>new states.
     ps = acc @ new \<and> new \<noteq> [] \<and> length new \<le> length attempts \<and>
     (\<forall>k<length new. snd (attempts ! k) = (Suc k = length new)) \<and>
     length states = Suc (length new) \<and> states ! 0 = server \<and>
     states ! length new = server' \<and>
     (\<forall>k<length new.
        tlsconnect_pause (states ! k) (fst (attempts ! k)) = (new ! k, states ! Suc k))"
proof (induction attempts arbitrary: server acc)
  case Nil
  then show ?case by simp
next
  case (Cons a attempts)
  obtain now up where a: "a = (now, up)" by (cases a)
  obtain p s1 where step: "tlsconnect_pause server now = (p, s1)"
    by (cases "tlsconnect_pause server now")
  show ?case
  proof (cases up)
    case True
    with Cons.prems a step have "ps = acc @ [p]" "server' = s1" by auto
    with a True step show ?thesis
      by (intro exI [of _ "[p]"] exI [of _ "[server, s1]"]) auto
  next
    case False
    with Cons.prems a step
    have "tlsconnect_loop s1 attempts (acc @ [p]) = Some (ps, server')" by auto
    from Cons.IH [OF this] obtain new states where
      ps: "ps = (acc @ [p]) @ new" and ne: "new \<noteq> []"
      and le: "length new \<le> length attempts"
      and ups: "\<forall>k<length new. snd (attempts ! k) = (Suc k = length new)"
      and ls: "length states = Suc (length new)" and s0: "states ! 0 = s1"
      and sl: "states ! length new = server'"
      and st: "\<forall>k<length new.
          tlsconnect_pause (states ! k) (fst (attempts ! k)) = (new ! k, states ! Suc k)"
      by blast
    have u: "snd ((a # attempts) ! k) = (Suc k = length (p # new))" if "k < length (p # new)" for k
    proof (cases k)
      case 0
      with a False ne show ?thesis by (cases new) auto
    next
      case (Suc j)
      with that ups show ?thesis by simp
    qed
    have t: "tlsconnect_pause ((server # states) ! k) (fst ((a # attempts) ! k))
             = ((p # new) ! k, (server # states) ! Suc k)" if "k < length (p # new)" for k
    proof (cases k)
      case 0
      with a step s0 show ?thesis by simp
    next
      case (Suc j)
      with that st show ?thesis by simp
    qed
    from ps le ls sl u t show ?thesis
      by (intro exI [of _ "p # new"] exI [of _ "server # states"]) auto
  qed
qed

lemma tlsconnect_pause_cases:
  assumes "tlsconnect_pause s now = (p, s')"
  shows "(connectionok s \<longrightarrow> p = Some 10 \<and> s' = s\<lparr>connectionok := False\<rparr>) \<and>
         (\<not> connectionok s \<longrightarrow>
            (now - tv_sec (lastconnecttry s) < 5 \<longrightarrow> p = Some 10 \<and> s' = s) \<and>
            (5 \<le> now - tv_sec (lastconnecttry s) \<and> now - tv_sec (lastconnecttry s) < 300 \<longrightarrow>
               p = Some (now - tv_sec (lastconnecttry s)) \<and> s' = s) \<and>
            (300 \<le> now - tv_sec (lastconnecttry s) \<and> now - tv_sec (lastconnecttry s) < 100000 \<longrightarrow>
               p = Some 600 \<and> s' = s) \<and>
            (100000 \<le> now - tv_sec (lastconnecttry s) \<longrightarrow>
               p = None \<and> s' = s\<lparr>lastconnecttry := (lastconnecttry s)\<lparr>tv_sec := now\<rparr>\<rparr>))"
  using assms by (auto simp: tlsconnect_pause_def Let_def split: if_splits)

text \<open>
  C9. Let \<^verbatim>\<open>tlsconnect\<close> return. If \<open>when\<close> was given and differs from
  \<^verbatim>\<open>lastconnecttry\<close>, there was no attempt and no pause. Otherwise the attempts made
  are the first \<open>n\<close> of the run, all failing but the last, there is one pause before
  each, and there are the server states \<open>states ! 0\<close> (the server as given), ...,
  \<open>states ! n\<close> such that the pause before attempt \<open>k\<close>, taken in the state
  \<open>states ! k\<close> at the time \<open>now\<close> of that attempt, is: 10 seconds if \<^verbatim>\<open>connectionok\<close>
  was set, which is cleared in \<open>states ! (k + 1)\<close>; otherwise, with the seconds elapsed
  since \<^verbatim>\<open>lastconnecttry\<close>, 10 seconds below 5, the elapsed seconds from 5 to below
  300, 600 seconds from 300 to below 100000, the state staying as it is; and no pause from
  100000, with the seconds of \<^verbatim>\<open>lastconnecttry\<close> set to \<open>now\<close> in \<open>states ! (k + 1)\<close>.
  The server returned is \<open>states ! n\<close> with \<^verbatim>\<open>lastconnecttry\<close> set to the time at the
  end. \<^verbatim>\<open>tlsconnect\<close> has not returned exactly when it entered the loop and every attempt
  so far has failed.
\<close>

theorem tlsconnect_backoff:
  "(\<forall>pauses server'.
      tlsconnect server whn attempts done = Some (pauses, server') \<longrightarrow>
      (whn \<noteq> None \<and> whn \<noteq> Some (lastconnecttry server) \<longrightarrow> pauses = [] \<and> server' = server) \<and>
      (whn = None \<or> whn = Some (lastconnecttry server) \<longrightarrow>
         pauses \<noteq> [] \<and> length pauses \<le> length attempts \<and>
         (\<forall>k<length pauses. snd (attempts ! k) = (Suc k = length pauses)) \<and>
         (\<exists>states.
            length states = Suc (length pauses) \<and> states ! 0 = server \<and>
            server' = (states ! length pauses)\<lparr>lastconnecttry := done\<rparr> \<and>
            (\<forall>k<length pauses.
               (connectionok (states ! k) \<longrightarrow>
                  pauses ! k = Some 10 \<and> states ! Suc k = (states ! k)\<lparr>connectionok := False\<rparr>) \<and>
               (\<not> connectionok (states ! k) \<longrightarrow>
                  (fst (attempts ! k) - tv_sec (lastconnecttry (states ! k)) < 5 \<longrightarrow>
                     pauses ! k = Some 10 \<and> states ! Suc k = states ! k) \<and>
                  (5 \<le> fst (attempts ! k) - tv_sec (lastconnecttry (states ! k)) \<and>
                   fst (attempts ! k) - tv_sec (lastconnecttry (states ! k)) < 300 \<longrightarrow>
                     pauses ! k = Some (fst (attempts ! k) - tv_sec (lastconnecttry (states ! k))) \<and>
                     states ! Suc k = states ! k) \<and>
                  (300 \<le> fst (attempts ! k) - tv_sec (lastconnecttry (states ! k)) \<and>
                   fst (attempts ! k) - tv_sec (lastconnecttry (states ! k)) < 100000 \<longrightarrow>
                     pauses ! k = Some 600 \<and> states ! Suc k = states ! k) \<and>
                  (100000 \<le> fst (attempts ! k) - tv_sec (lastconnecttry (states ! k)) \<longrightarrow>
                     pauses ! k = None \<and>
                     states ! Suc k =
                       (states ! k)\<lparr>lastconnecttry :=
                          (lastconnecttry (states ! k))\<lparr>tv_sec := fst (attempts ! k)\<rparr>\<rparr>)))))) \<and>
   (tlsconnect server whn attempts done = None \<longleftrightarrow>
      (whn = None \<or> whn = Some (lastconnecttry server)) \<and> (\<forall>a\<in>set attempts. \<not> snd a))"
  (is "(\<forall>pauses server'. ?run pauses server' \<longrightarrow> ?early pauses server' \<and> ?looped pauses server') \<and> ?never")
proof -
  have A: "?run pauses server' \<longrightarrow> ?early pauses server' \<and> ?looped pauses server'" for pauses server'
  proof
    assume run: "?run pauses server'"
    then have E1: "?early pauses server'" by (auto simp: tlsconnect_def)
    have E2: "?looped pauses server'"
    proof
      assume enter: "whn = None \<or> whn = Some (lastconnecttry server)"
      with run obtain s2 where lp: "tlsconnect_loop server attempts [] = Some (pauses, s2)"
        and s': "server' = s2\<lparr>lastconnecttry := done\<rparr>"
        by (auto simp: tlsconnect_def split: option.splits)
      from tlsconnect_loop_trace [OF lp] obtain states where
        ne: "pauses \<noteq> []" and le: "length pauses \<le> length attempts"
        and ups: "\<forall>k<length pauses. snd (attempts ! k) = (Suc k = length pauses)"
        and ls: "length states = Suc (length pauses)" and s0: "states ! 0 = server"
        and sl: "states ! length pauses = s2"
        and st: "\<forall>k<length pauses.
            tlsconnect_pause (states ! k) (fst (attempts ! k)) = (pauses ! k, states ! Suc k)"
        by auto
      have lad: "\<forall>k<length pauses.
               (connectionok (states ! k) \<longrightarrow>
                  pauses ! k = Some 10 \<and> states ! Suc k = (states ! k)\<lparr>connectionok := False\<rparr>) \<and>
               (\<not> connectionok (states ! k) \<longrightarrow>
                  (fst (attempts ! k) - tv_sec (lastconnecttry (states ! k)) < 5 \<longrightarrow>
                     pauses ! k = Some 10 \<and> states ! Suc k = states ! k) \<and>
                  (5 \<le> fst (attempts ! k) - tv_sec (lastconnecttry (states ! k)) \<and>
                   fst (attempts ! k) - tv_sec (lastconnecttry (states ! k)) < 300 \<longrightarrow>
                     pauses ! k = Some (fst (attempts ! k) - tv_sec (lastconnecttry (states ! k))) \<and>
                     states ! Suc k = states ! k) \<and>
                  (300 \<le> fst (attempts ! k) - tv_sec (lastconnecttry (states ! k)) \<and>
                   fst (attempts ! k) - tv_sec (lastconnecttry (states ! k)) < 100000 \<longrightarrow>
                     pauses ! k = Some 600 \<and> states ! Suc k = states ! k) \<and>
                  (100000 \<le> fst (attempts ! k) - tv_sec (lastconnecttry (states ! k)) \<longrightarrow>
                     pauses ! k = None \<and>
                     states ! Suc k =
                       (states ! k)\<lparr>lastconnecttry :=
                          (lastconnecttry (states ! k))\<lparr>tv_sec := fst (attempts ! k)\<rparr>\<rparr>))"
      proof (intro allI impI)
        fix k assume "k < length pauses"
        with st have "tlsconnect_pause (states ! k) (fst (attempts ! k)) = (pauses ! k, states ! Suc k)"
          by simp
        from tlsconnect_pause_cases [OF this]
        show "(connectionok (states ! k) \<longrightarrow>
                  pauses ! k = Some 10 \<and> states ! Suc k = (states ! k)\<lparr>connectionok := False\<rparr>) \<and>
               (\<not> connectionok (states ! k) \<longrightarrow>
                  (fst (attempts ! k) - tv_sec (lastconnecttry (states ! k)) < 5 \<longrightarrow>
                     pauses ! k = Some 10 \<and> states ! Suc k = states ! k) \<and>
                  (5 \<le> fst (attempts ! k) - tv_sec (lastconnecttry (states ! k)) \<and>
                   fst (attempts ! k) - tv_sec (lastconnecttry (states ! k)) < 300 \<longrightarrow>
                     pauses ! k = Some (fst (attempts ! k) - tv_sec (lastconnecttry (states ! k))) \<and>
                     states ! Suc k = states ! k) \<and>
                  (300 \<le> fst (attempts ! k) - tv_sec (lastconnecttry (states ! k)) \<and>
                   fst (attempts ! k) - tv_sec (lastconnecttry (states ! k)) < 100000 \<longrightarrow>
                     pauses ! k = Some 600 \<and> states ! Suc k = states ! k) \<and>
                  (100000 \<le> fst (attempts ! k) - tv_sec (lastconnecttry (states ! k)) \<longrightarrow>
                     pauses ! k = None \<and>
                     states ! Suc k =
                       (states ! k)\<lparr>lastconnecttry :=
                          (lastconnecttry (states ! k))\<lparr>tv_sec := fst (attempts ! k)\<rparr>\<rparr>))" .
      qed
      from s' sl have s2: "server' = (states ! length pauses)\<lparr>lastconnecttry := done\<rparr>" by simp
      from ls s0 s2 lad
      have "\<exists>states.
            length states = Suc (length pauses) \<and> states ! 0 = server \<and>
            server' = (states ! length pauses)\<lparr>lastconnecttry := done\<rparr> \<and>
            (\<forall>k<length pauses.
               (connectionok (states ! k) \<longrightarrow>
                  pauses ! k = Some 10 \<and> states ! Suc k = (states ! k)\<lparr>connectionok := False\<rparr>) \<and>
               (\<not> connectionok (states ! k) \<longrightarrow>
                  (fst (attempts ! k) - tv_sec (lastconnecttry (states ! k)) < 5 \<longrightarrow>
                     pauses ! k = Some 10 \<and> states ! Suc k = states ! k) \<and>
                  (5 \<le> fst (attempts ! k) - tv_sec (lastconnecttry (states ! k)) \<and>
                   fst (attempts ! k) - tv_sec (lastconnecttry (states ! k)) < 300 \<longrightarrow>
                     pauses ! k = Some (fst (attempts ! k) - tv_sec (lastconnecttry (states ! k))) \<and>
                     states ! Suc k = states ! k) \<and>
                  (300 \<le> fst (attempts ! k) - tv_sec (lastconnecttry (states ! k)) \<and>
                   fst (attempts ! k) - tv_sec (lastconnecttry (states ! k)) < 100000 \<longrightarrow>
                     pauses ! k = Some 600 \<and> states ! Suc k = states ! k) \<and>
                  (100000 \<le> fst (attempts ! k) - tv_sec (lastconnecttry (states ! k)) \<longrightarrow>
                     pauses ! k = None \<and>
                     states ! Suc k =
                       (states ! k)\<lparr>lastconnecttry :=
                          (lastconnecttry (states ! k))\<lparr>tv_sec := fst (attempts ! k)\<rparr>\<rparr>)))"
        by blast
      with ne le ups
      show "pauses \<noteq> [] \<and> length pauses \<le> length attempts \<and>
         (\<forall>k<length pauses. snd (attempts ! k) = (Suc k = length pauses)) \<and>
         (\<exists>states.
            length states = Suc (length pauses) \<and> states ! 0 = server \<and>
            server' = (states ! length pauses)\<lparr>lastconnecttry := done\<rparr> \<and>
            (\<forall>k<length pauses.
               (connectionok (states ! k) \<longrightarrow>
                  pauses ! k = Some 10 \<and> states ! Suc k = (states ! k)\<lparr>connectionok := False\<rparr>) \<and>
               (\<not> connectionok (states ! k) \<longrightarrow>
                  (fst (attempts ! k) - tv_sec (lastconnecttry (states ! k)) < 5 \<longrightarrow>
                     pauses ! k = Some 10 \<and> states ! Suc k = states ! k) \<and>
                  (5 \<le> fst (attempts ! k) - tv_sec (lastconnecttry (states ! k)) \<and>
                   fst (attempts ! k) - tv_sec (lastconnecttry (states ! k)) < 300 \<longrightarrow>
                     pauses ! k = Some (fst (attempts ! k) - tv_sec (lastconnecttry (states ! k))) \<and>
                     states ! Suc k = states ! k) \<and>
                  (300 \<le> fst (attempts ! k) - tv_sec (lastconnecttry (states ! k)) \<and>
                   fst (attempts ! k) - tv_sec (lastconnecttry (states ! k)) < 100000 \<longrightarrow>
                     pauses ! k = Some 600 \<and> states ! Suc k = states ! k) \<and>
                  (100000 \<le> fst (attempts ! k) - tv_sec (lastconnecttry (states ! k)) \<longrightarrow>
                     pauses ! k = None \<and>
                     states ! Suc k =
                       (states ! k)\<lparr>lastconnecttry :=
                          (lastconnecttry (states ! k))\<lparr>tv_sec := fst (attempts ! k)\<rparr>\<rparr>))))"
        by blast
    qed
    from E1 E2 show "?early pauses server' \<and> ?looped pauses server'" by (rule conjI)
  qed
  have B: ?never
    using tlsconnect_loop_None [of server attempts "[]"]
    by (auto simp: tlsconnect_def split: option.splits)
  from A B show ?thesis by blast
qed

text \<open>
  The cold start: no pause before the first attempt, then 10 seconds, then the seconds
  elapsed since the first attempt, then 600 seconds. After a connection that was up, a
  pause of 10 seconds; nothing when another thread has connected; no return while every
  attempt fails.
\<close>

lemma ex_tlsconnect_cold_start: "tlsconnect ex_server None ex_attempts ex_done =
     Some ([None, Some 10, Some 11, Some 22, Some 44, Some 88, Some 176, Some 600],
           ex_server\<lparr>lastconnecttry := ex_done\<rparr>)"
    by (simp add: tlsconnect_def tlsconnect_pause_def ex_attempts_def ex_server_def ex_done_def
          Let_def)

lemma ex_tlsconnect_dropped: "tlsconnect (ex_server\<lparr>connectionok := True\<rparr>) None [(1000, True)] ex_done =
     Some ([Some 10], ex_server\<lparr>lastconnecttry := ex_done\<rparr>)"
    by (simp add: tlsconnect_def tlsconnect_pause_def ex_server_def ex_done_def Let_def)

lemma ex_tlsconnect_reconnected: "tlsconnect ex_server (Some ex_done) ex_attempts ex_done = Some ([], ex_server)"
    by (simp add: tlsconnect_def ex_server_def ex_done_def)

lemma ex_tlsconnect_failing: "tlsconnect ex_server None (butlast ex_attempts) ex_done = None"
    by (simp add: tlsconnect_def tlsconnect_pause_def ex_attempts_def ex_server_def ex_done_def
          Let_def)

theorem tlsconnect_backoff_witness:
  "tlsconnect ex_server None ex_attempts ex_done =
     Some ([None, Some 10, Some 11, Some 22, Some 44, Some 88, Some 176, Some 600],
           ex_server\<lparr>lastconnecttry := ex_done\<rparr>) \<and>
   (\<exists>states. length states = 9 \<and> states ! 0 = ex_server \<and>
      ex_server\<lparr>lastconnecttry := ex_done\<rparr> = (states ! 8)\<lparr>lastconnecttry := ex_done\<rparr> \<and>
      states ! 1 = ex_server\<lparr>lastconnecttry := \<lparr>tv_sec = 200000, tv_usec = 0\<rparr>\<rparr>) \<and>
   tlsconnect (ex_server\<lparr>connectionok := True\<rparr>) None [(1000, True)] ex_done =
     Some ([Some 10], ex_server\<lparr>lastconnecttry := ex_done\<rparr>) \<and>
   tlsconnect ex_server (Some ex_done) ex_attempts ex_done = Some ([], ex_server) \<and>
   tlsconnect ex_server None (butlast ex_attempts) ex_done = None"
proof -
  let ?P = "[None, Some 10, Some 11, Some 22, Some 44, Some 88, Some 176, Some 600]
            :: int option list"
  let ?S = "ex_server\<lparr>lastconnecttry := ex_done\<rparr>"
  have weaken: "\<exists>states. A states \<and> B states \<and> C states \<and> D states 0"
    if "\<exists>states. A states \<and> B states \<and> C states \<and> (\<forall>k<n. D states k)" "0 < n"
    for A B C :: "server list \<Rightarrow> bool" and D :: "server list \<Rightarrow> nat \<Rightarrow> bool" and n :: nat
    using that by blast
  note run = ex_tlsconnect_cold_start
  note looped = tlsconnect_backoff [of ex_server None ex_attempts ex_done, THEN conjunct1,
      THEN spec, THEN spec, THEN mp, OF run, THEN conjunct2, THEN mp, OF disjI1, OF refl]
  note ex = looped [THEN conjunct2, THEN conjunct2, THEN conjunct2]
  have "0 < length ?P" by simp
  from weaken [OF ex this] obtain states where
    l: "length states = Suc (length ?P)" and s0: "states ! 0 = ex_server"
    and sl: "?S = (states ! length ?P)\<lparr>lastconnecttry := ex_done\<rparr>"
    and st: "\<not> connectionok (states ! 0) \<longrightarrow>
             100000 \<le> fst (ex_attempts ! 0) - tv_sec (lastconnecttry (states ! 0)) \<longrightarrow>
             states ! Suc 0 =
               (states ! 0)\<lparr>lastconnecttry :=
                  (lastconnecttry (states ! 0))\<lparr>tv_sec := fst (ex_attempts ! 0)\<rparr>\<rparr>"
    by blast
  from st s0 have s1: "states ! 1 = ex_server\<lparr>lastconnecttry := \<lparr>tv_sec = 200000, tv_usec = 0\<rparr>\<rparr>"
    by (simp add: ex_server_def ex_attempts_def)
  from l s0 sl s1 have "\<exists>states. length states = 9 \<and> states ! 0 = ex_server \<and>
      ex_server\<lparr>lastconnecttry := ex_done\<rparr> = (states ! 8)\<lparr>lastconnecttry := ex_done\<rparr> \<and>
      states ! 1 = ex_server\<lparr>lastconnecttry := \<lparr>tv_sec = 200000, tv_usec = 0\<rparr>\<rparr>"
    by (intro exI [of _ states]) (simp add: eval_nat_numeral)
  with run ex_tlsconnect_dropped ex_tlsconnect_reconnected ex_tlsconnect_failing show ?thesis by (intro conjI)
qed

end
